theory Spec2Isabelle
  imports Main
begin

section \<open>The meta-tag rewriting middleware (\<^verbatim>\<open>src/middleware.js\<close>)\<close>

text \<open>
  The middleware is one asynchronous JavaScript function. Its model is a pure function of
  the request and of the two things the function reads from outside: the answer of the
  concept-data service and the text of \<^verbatim>\<open>dist/_empty.html\<close>. Every \<^verbatim>\<open>throw\<close> and
  every rejected promise is a value of type \<open>js_error\<close>; the console is a list of entries
  that the function returns beside its outcome.

  A \<open>char\<close> stands for one code unit of a JavaScript string. \<^verbatim>\<open>request.url\<close> is a
  serialised URL and therefore consists of ASCII characters only, so that
  \<^verbatim>\<open>toUpperCase\<close> and \<^verbatim>\<open>toLowerCase\<close> act on the letters a-z and A-Z alone.
\<close>

subsection \<open>Values, errors, requests and responses\<close>

text \<open>
  A JavaScript value as far as the middleware meets one: \<^verbatim>\<open>undefined\<close>, and whatever
  \<^verbatim>\<open>res.json()\<close> can produce. A number is kept as its JSON literal, no operation of the
  middleware reads it. \<open>JObj\<close> lists the own properties of a parsed object; the parser has
  already resolved repeated keys.
\<close>

datatype jsval =
    JUndefined
  | JNull
  | JBool bool
  | JNum string
  | JStr string
  | JArr "jsval list"
  | JObj "(string \<times> jsval) list"

datatype js_error =
    FetchRejected         \<comment> \<open>\<^verbatim>\<open>fetch(...)\<close> rejects: network failure\<close>
  | BodyRejected          \<comment> \<open>\<^verbatim>\<open>res.json()\<close> or \<^verbatim>\<open>res.text()\<close> rejects: unreadable or malformed body\<close>
  | NullPropertyRead      \<comment> \<open>TypeError: a property of \<^verbatim>\<open>null\<close> or \<^verbatim>\<open>undefined\<close> is read\<close>

datatype log_arg = LStr string | LErr js_error

datatype log_entry =
    ConsoleError "log_arg list"
  | ConsoleLog "log_arg list"

record request =
  url :: string

record response =
  status :: nat
  headers :: "(string \<times> string) list"
  body :: string

text \<open>
  What an invocation ends with: \<^verbatim>\<open>return next(request)\<close>, \<^verbatim>\<open>return new Response(...)\<close>,
  or a rejection of the promise the asynchronous function returns.
\<close>

datatype outcome =
    Next request
  | Respond response
  | Rejected js_error

text \<open>
  The outside world of one invocation: \<open>fetch_json u\<close> is the result of
  \<^verbatim>\<open>fetch(u).then((res) => res.json())\<close>, and \<open>index_file_text\<close> the result of
  \<^verbatim>\<open>fetch(indexFileURL).then((res) => res.text())\<close> for the fixed URL of
  \<^verbatim>\<open>./dist/_empty.html\<close>.
\<close>

record world =
  fetch_json :: "string \<Rightarrow> js_error + jsval"
  index_file_text :: "js_error + string"

text \<open>
  \<^verbatim>\<open>new Response(text, { headers: ... })\<close>: the constructor is given no status, and the
  Fetch API then sets 200.
\<close>

definition new_Response :: "string \<Rightarrow> (string \<times> string) list \<Rightarrow> response" where
  "new_Response text hs = \<lparr>status = 200, headers = hs, body = text\<rparr>"

text \<open>
  Reading the property \<open>k\<close> of a value, for a name \<open>k\<close> that no built-in prototype
  defines (the middleware reads \<^verbatim>\<open>title\<close> and \<^verbatim>\<open>description_markdown\<close>): \<^verbatim>\<open>null\<close> and
  \<^verbatim>\<open>undefined\<close> throw, an object gives its own property or \<^verbatim>\<open>undefined\<close>, every other
  value gives \<^verbatim>\<open>undefined\<close>.
\<close>

fun get_prop :: "jsval \<Rightarrow> string \<Rightarrow> js_error + jsval" where
  "get_prop JUndefined k = Inl NullPropertyRead"
| "get_prop JNull k = Inl NullPropertyRead"
| "get_prop (JObj kvs) k = Inr (case map_of kvs k of None \<Rightarrow> JUndefined | Some v \<Rightarrow> v)"
| "get_prop v k = Inr JUndefined"

subsection \<open>The two regular expressions\<close>

text \<open>
  \<^verbatim>\<open>/\/users\/([^/?]+)/\<close> and \<^verbatim>\<open>/\/concepts\/([^/?]+)/\<close> differ in their literal only.
  \<open>match_here lit s\<close> tries the expression at the start of \<open>s\<close>: the literal, then the
  longest run of characters other than \<^verbatim>\<open>/\<close> and \<^verbatim>\<open>?\<close>, which must not be empty; the result
  is the captured group. \<open>regex_match\<close> is \<^verbatim>\<open>String.prototype.match\<close> without the \<^verbatim>\<open>g\<close>
  flag: the leftmost position where the expression matches.
\<close>

definition seg_char :: "char \<Rightarrow> bool" where
  "seg_char c \<longleftrightarrow> c \<noteq> CHR ''/'' \<and> c \<noteq> CHR ''?''"

definition match_here :: "string \<Rightarrow> string \<Rightarrow> string option" where
  "match_here lit s =
     (if take (length lit) s = lit \<and> takeWhile seg_char (drop (length lit) s) \<noteq> []
      then Some (takeWhile seg_char (drop (length lit) s))
      else None)"

fun regex_match :: "string \<Rightarrow> string \<Rightarrow> string option" where
  "regex_match lit [] = match_here lit []"
| "regex_match lit (c # cs) =
     (case match_here lit (c # cs) of
        Some g \<Rightarrow> Some g
      | None \<Rightarrow> regex_match lit cs)"

subsection \<open>Slug to title\<close>

definition toUpperCase :: "char \<Rightarrow> char" where
  "toUpperCase c =
     (if 97 \<le> (of_char c :: nat) \<and> (of_char c :: nat) \<le> 122
      then char_of ((of_char c :: nat) - 32) else c)"

definition toLowerCase :: "char \<Rightarrow> char" where
  "toLowerCase c =
     (if 65 \<le> (of_char c :: nat) \<and> (of_char c :: nat) \<le> 90
      then char_of ((of_char c :: nat) + 32) else c)"

text \<open>
  \<^verbatim>\<open>s.split(d)\<close> for a one-character separator: the pieces between the separators, empty
  pieces included; never the empty array. A character other than the separator joins the
  first piece of what follows (there always is one, see \<open>split_not_Nil\<close>).
\<close>

fun split :: "char \<Rightarrow> string \<Rightarrow> string list" where
  "split d [] = [[]]"
| "split d (c # cs) =
     (if c = d then [] # split d cs
      else (case split d cs of
              [] \<Rightarrow> [[c]]
            | word # words \<Rightarrow> (c # word) # words))"

text \<open>\<^verbatim>\<open>ws.join(sep)\<close>.\<close>

fun join :: "string \<Rightarrow> string list \<Rightarrow> string" where
  "join sep [] = []"
| "join sep [w] = w"
| "join sep (w # ws) = w @ sep @ join sep ws"

text \<open>
  \<^verbatim>\<open>word.charAt(0).toUpperCase() + word.slice(1).toLowerCase()\<close>; \<^verbatim>\<open>charAt(0)\<close> of the
  empty string is the empty string.
\<close>

definition capitalize :: "string \<Rightarrow> string" where
  "capitalize word = map toUpperCase (take 1 word) @ map toLowerCase (drop 1 word)"

definition fallback_title :: "string \<Rightarrow> string" where
  "fallback_title conceptSlug = join '' '' (map capitalize (split CHR ''-'' conceptSlug))"

definition fallback_description :: "string \<Rightarrow> string" where
  "fallback_description conceptSlug =
     ''View the '' @ fallback_title conceptSlug @ '' concept on CodeCrafters''"

subsection \<open>Page metadata\<close>

record page_meta =
  pageImageUrl :: jsval
  pageTitle :: jsval
  pageDescription :: jsval

text \<open>
  The \<^verbatim>\<open>catch\<close> block: it logs the error and a note, and leaves the two variables as
  they are at the moment of the throw.
\<close>

definition catch_block :: "js_error \<Rightarrow> jsval \<times> jsval \<Rightarrow> (jsval \<times> jsval) \<times> log_entry list" where
  "catch_block e vars =
     (vars, [ConsoleError [LErr e], ConsoleLog [LStr ''ignoring error for now'']])"

text \<open>
  The \<^verbatim>\<open>try\<close> statement of the concept branch, from the fallback values of
  \<^verbatim>\<open>conceptTitle\<close> and \<^verbatim>\<open>conceptDescription\<close> to their final values. The two
  assignments run in the order of the source, so a throw between them would keep the
  first.
\<close>

definition concept_data_url :: "string \<Rightarrow> string" where
  "concept_data_url conceptSlug =
     ''https://backend.codecrafters.io/services/dynamic_og_images/concept_data?id_or_slug=''
       @ conceptSlug"

definition concept_try :: "world \<Rightarrow> string \<Rightarrow> (jsval \<times> jsval) \<times> log_entry list" where
  "concept_try w conceptSlug =
     (let conceptTitle = JStr (fallback_title conceptSlug);
          conceptDescription = JStr (fallback_description conceptSlug)
      in case fetch_json w (concept_data_url conceptSlug) of
           Inl e \<Rightarrow> catch_block e (conceptTitle, conceptDescription)
         | Inr conceptData \<Rightarrow>
             (case get_prop conceptData ''title'' of
                Inl e \<Rightarrow> catch_block e (conceptTitle, conceptDescription)
              | Inr t \<Rightarrow>
                  (case get_prop conceptData ''description_markdown'' of
                     Inl e \<Rightarrow> catch_block e (t, conceptDescription)
                   | Inr d \<Rightarrow> ((t, d), []))))"

text \<open>
  The \<^verbatim>\<open>if (usersPathMatchResult) ... else if (conceptsPathMatchResult) ...\<close> statement.
  The user branch comes first; with neither match the three variables stay
  \<^verbatim>\<open>undefined\<close> (the middleware has returned before in that case).
\<close>

fun derive_meta :: "world \<Rightarrow> string option \<Rightarrow> string option \<Rightarrow> page_meta \<times> log_entry list" where
  "derive_meta w (Some username) conceptsPathMatchResult =
     (\<lparr>pageImageUrl = JStr (''https://og.codecrafters.io/api/user_profile/'' @ username),
       pageTitle = JStr (username @ [CHR 0x27] @ ''s CodeCrafters Profile''),
       pageDescription = JStr (''View '' @ username @ [CHR 0x27] @ ''s profile on CodeCrafters'')\<rparr>,
      [])"
| "derive_meta w None (Some conceptSlug) =
     (case concept_try w conceptSlug of
        ((conceptTitle, conceptDescription), lg) \<Rightarrow>
          (\<lparr>pageImageUrl = JStr (''https://og.codecrafters.io/api/concept/'' @ conceptSlug),
            pageTitle = conceptTitle,
            pageDescription = conceptDescription\<rparr>,
           lg))"
| "derive_meta w None None =
     (\<lparr>pageImageUrl = JUndefined, pageTitle = JUndefined, pageDescription = JUndefined\<rparr>, [])"

subsection \<open>The middleware\<close>

text \<open>The list of argument triples handed to \<^verbatim>\<open>replaceMetaTag\<close>, in the order of the source.\<close>

definition substitutions :: "page_meta \<Rightarrow> (string \<times> string \<times> jsval) list" where
  "substitutions m =
     [(''name'', ''description'', pageDescription m),
      (''property'', ''og:title'', pageTitle m),
      (''property'', ''og:description'', pageDescription m),
      (''property'', ''og:image'', pageImageUrl m),
      (''name'', ''twitter:title'', pageTitle m),
      (''name'', ''twitter:description'', pageDescription m),
      (''name'', ''twitter:image'', pageImageUrl m)]"

text \<open>
  \<^verbatim>\<open>[...].reduce((text, args) => replaceMetaTag(text, ...args), indexFileText)\<close>. The
  imported \<^verbatim>\<open>replaceMetaTag\<close> is the parameter \<open>rmt\<close>.
\<close>

definition rewrite :: "(string \<Rightarrow> string \<Rightarrow> string \<Rightarrow> jsval \<Rightarrow> string) \<Rightarrow> string \<Rightarrow> page_meta \<Rightarrow> string" where
  "rewrite rmt indexFileText m =
     foldl (\<lambda>text (a, v, c). rmt text a v c) indexFileText (substitutions m)"

definition middleware ::
  "(string \<Rightarrow> string \<Rightarrow> string \<Rightarrow> jsval \<Rightarrow> string) \<Rightarrow> world \<Rightarrow> request \<Rightarrow> outcome \<times> log_entry list" where
  "middleware rmt w request =
     (let usersPathMatchResult = regex_match ''/users/'' (url request);
          conceptsPathMatchResult = regex_match ''/concepts/'' (url request)
      in if usersPathMatchResult = None \<and> conceptsPathMatchResult = None
         then (Next request,
               [ConsoleError [LStr ''Unable to parse username or concept slug from the URL:'',
                              LStr (url request)]])
         else
           (case derive_meta w usersPathMatchResult conceptsPathMatchResult of
              (m, lg) \<Rightarrow>
                (case index_file_text w of
                   Inl e \<Rightarrow> (Rejected e, lg)
                 | Inr indexFileText \<Rightarrow>
                     (Respond (new_Response (rewrite rmt indexFileText m)
                                 [(''Content-Type'', ''text/html'')]),
                      lg))))"

text \<open>
  The three variables \<^verbatim>\<open>pageImageUrl\<close>, \<^verbatim>\<open>pageTitle\<close> and \<^verbatim>\<open>pageDescription\<close> as the
  middleware has them when it reaches the template.
\<close>

definition page_metadata :: "world \<Rightarrow> request \<Rightarrow> page_meta" where
  "page_metadata w request =
     fst (derive_meta w (regex_match ''/users/'' (url request))
                        (regex_match ''/concepts/'' (url request)))"

subsection \<open>Notions of the specification\<close>

text \<open>
  The fallback title read off the slug character by character: a hyphen becomes one
  space, the first character of a word is upper-cased, every other character is
  lower-cased. \<open>first\<close> says whether the next character starts a word.
\<close>

fun title_chars :: "bool \<Rightarrow> string \<Rightarrow> string" where
  "title_chars first [] = []"
| "title_chars first (c # cs) =
     (if c = CHR ''-'' then CHR '' '' # title_chars True cs
      else (if first then toUpperCase c else toLowerCase c) # title_chars False cs)"

text \<open>
  The path of a serialised absolute URL \<^verbatim>\<open>scheme://authority/path?query#fragment\<close>: what
  follows the authority, up to the first \<^verbatim>\<open>?\<close> or \<^verbatim>\<open>#\<close>. The middleware never computes
  it; the specification speaks of it.
\<close>

definition url_path :: "string \<Rightarrow> string" where
  "url_path u =
     takeWhile (\<lambda>c. c \<noteq> CHR ''?'' \<and> c \<noteq> CHR ''#'')
       (dropWhile (\<lambda>c. c \<noteq> CHR ''/'') (drop 2 (dropWhile (\<lambda>c. c \<noteq> CHR ''/'') u)))"

text \<open>
  The trigger as the specification words it, read on a string: the string names a route
  when it contains the literal directly followed by a segment, a non-empty run of
  characters other than \<^verbatim>\<open>/\<close> and \<^verbatim>\<open>?\<close>.
\<close>

definition names_route :: "string \<Rightarrow> string \<Rightarrow> bool" where
  "names_route lit u \<longleftrightarrow>
     (\<exists>pre seg rest. u = pre @ lit @ seg @ rest \<and> seg \<noteq> []
        \<and> (\<forall>c\<in>set seg. c \<noteq> CHR ''/'' \<and> c \<noteq> CHR ''?''))"

definition triggers :: "string \<Rightarrow> bool" where
  "triggers u \<longleftrightarrow> names_route ''/users/'' u \<or> names_route ''/concepts/'' u"

text \<open>
  A world for the examples: the concept-data service is unreachable and the template is a
  small document.
\<close>

definition offline_world :: world where
  "offline_world =
     \<lparr>fetch_json = (\<lambda>u. Inl FetchRejected),
      index_file_text = Inr ''<html><head></head></html>''\<rparr>"

text \<open>
  A world whose concept-data service answers with an object that has neither a
  \<^verbatim>\<open>title\<close> nor a \<^verbatim>\<open>description_markdown\<close>.
\<close>

definition sparse_world :: world where
  "sparse_world =
     \<lparr>fetch_json = (\<lambda>u. Inr (JObj [(''slug'', JStr ''dns'')])),
      index_file_text = Inr ''<html><head></head></html>''\<rparr>"

text \<open>A world whose concept-data service answers with the JSON body \<^verbatim>\<open>null\<close>.\<close>

definition null_world :: world where
  "null_world =
     \<lparr>fetch_json = (\<lambda>u. Inr JNull),
      index_file_text = Inr ''<html><head></head></html>''\<rparr>"

text \<open>A world in which the template cannot be read either.\<close>

definition broken_world :: world where
  "broken_world =
     \<lparr>fetch_json = (\<lambda>u. Inl FetchRejected),
      index_file_text = Inl FetchRejected\<rparr>"

section \<open>The substitution of one meta tag (\<^verbatim>\<open>replaceMetaTag\<close>)\<close>

text \<open>
  Modelled from the spec: \<^verbatim>\<open>replaceMetaTag\<close>, which the middleware imports from
  \<^verbatim>\<open>./app/utils/replace-meta-tag\<close>, is not among the source files. The specification
  says of it: it is given the HTML text and a triple of attribute name, attribute value
  and replacement content; it locates a meta tag matching the attribute/value pair and
  replaces the value of its \<^verbatim>\<open>content\<close> attribute with the supplied string; it handles
  attribute-value quoting and tags with their attributes in either order; it leaves all
  other document content untouched; applying the same triple twice gives the same text
  as applying it once.

  The model works on the text. A meta tag is \<^verbatim>\<open><meta\<close>, a white-space character, and
  what follows up to the first \<^verbatim>\<open>>\<close> outside double quotes. Inside the tag an attribute
  is a name directly followed by \<^verbatim>\<open>=\<close> and a double-quoted value, in any order with the
  other attributes. A tag matches the pair when it has an attribute of that name with
  that value. The substitution rewrites every matching tag in place: the text between
  the quotes of its first \<^verbatim>\<open>content\<close> attribute becomes the supplied string, quoted for
  an attribute value; no other character of the text changes.
\<close>

subsection \<open>Attribute-value quoting\<close>

text \<open>
  Modelled from the spec: attribute-value quoting. Inside a double-quoted attribute value
  the string is written with \<^verbatim>\<open>&quot;\<close> for a double quote and \<^verbatim>\<open>&amp;\<close> for an ampersand;
  \<open>attr_unquote\<close> reads such a value back.
\<close>

fun attr_quote :: "string \<Rightarrow> string" where
  "attr_quote [] = []"
| "attr_quote (c # cs) =
     (if c = CHR 0x22 then ''&quot;'' else if c = CHR ''&'' then ''&amp;'' else [c]) @ attr_quote cs"

fun attr_unquote :: "string \<Rightarrow> string" where
  "attr_unquote [] = []"
| "attr_unquote (c # cs) =
     (if c = CHR ''&'' \<and> take 5 cs = ''quot;'' then CHR 0x22 # attr_unquote (drop 5 cs)
      else if c = CHR ''&'' \<and> take 4 cs = ''amp;'' then CHR ''&'' # attr_unquote (drop 4 cs)
      else c # attr_unquote cs)"

subsection \<open>The inside of a tag\<close>

text \<open>
  Modelled from the spec: the text of a tag, as a list of pieces. A piece is a character
  outside double quotes, or a double-quoted run, which is printed between two double
  quotes.
\<close>

datatype piece = Ch char | Quoted string

fun print_piece :: "piece \<Rightarrow> string" where
  "print_piece (Ch c) = [c]"
| "print_piece (Quoted q) = CHR 0x22 # q @ [CHR 0x22]"

definition print_pieces :: "piece list \<Rightarrow> string" where
  "print_pieces ps = concat (map print_piece ps)"

text \<open>
  Modelled from the spec: reading a tag. \<open>lex_tag s\<close> reads the pieces of a tag from the
  text \<open>s\<close> behind \<^verbatim>\<open><meta\<close> and its white-space character, up to the first \<^verbatim>\<open>>\<close> outside
  double quotes, and returns them with the text behind that \<^verbatim>\<open>>\<close>. The result is \<open>None\<close>
  when the text ends before the tag does.
\<close>

function lex_tag :: "string \<Rightarrow> (piece list \<times> string) option" where
  "lex_tag [] = None"
| "lex_tag (c # cs) =
     (if c = CHR ''>'' then Some ([], cs)
      else if c = CHR 0x22 then
        (case dropWhile (\<lambda>x. x \<noteq> CHR 0x22) cs of
           [] \<Rightarrow> None
         | x # r \<Rightarrow>
             (case lex_tag r of
                None \<Rightarrow> None
              | Some (ps, rest) \<Rightarrow> Some (Quoted (takeWhile (\<lambda>x. x \<noteq> CHR 0x22) cs) # ps, rest)))
      else
        (case lex_tag cs of
           None \<Rightarrow> None
         | Some (ps, rest) \<Rightarrow> Some (Ch c # ps, rest)))"
  by pat_completeness auto
termination
proof (relation "measure length")
  show "wf (measure length)" by simp
next
  fix c :: char and cs x r
  assume "dropWhile (\<lambda>x. x \<noteq> CHR 0x22) cs = x # r"
  then have "length (x # r) \<le> length cs"
    by (metis length_dropWhile_le)
  then show "(r, c # cs) \<in> measure length" by simp
next
  fix c :: char and cs
  show "(cs, c # cs) \<in> measure length" by simp
qed

lemma lex_tag_shorter: "lex_tag s = Some (ps, rest) \<Longrightarrow> length rest < length s"
proof (induction s arbitrary: ps rest rule: lex_tag.induct)
  case 1
  then show ?case by simp
next
  case (2 c cs)
  show ?case
  proof (cases "c = CHR ''>''")
    case True
    with "2.prems" show ?thesis by simp
  next
    case gt: False
    show ?thesis
    proof (cases "c = CHR 0x22")
      case True
      with gt "2.prems" obtain x r ps' where
        d: "dropWhile (\<lambda>x. x \<noteq> CHR 0x22) cs = x # r" and l: "lex_tag r = Some (ps', rest)"
        by (auto split: list.splits option.splits)
      from "2.IH"(1) [OF gt True d l] have "length rest < length r" .
      moreover have "length (x # r) \<le> length cs"
        using d by (metis length_dropWhile_le)
      ultimately show ?thesis by simp
    next
      case False
      with gt "2.prems" obtain ps' where l: "lex_tag cs = Some (ps', rest)"
        by (auto split: option.splits)
      from "2.IH"(2) [OF gt False l] show ?thesis by simp
    qed
  qed
qed

definition is_space :: "char \<Rightarrow> bool" where
  "is_space c \<longleftrightarrow>
     c = CHR '' '' \<or> c = CHR 0x09 \<or> c = CHR 0x0A \<or> c = CHR 0x0C \<or> c = CHR 0x0D"

text \<open>
  Modelled from the spec: the attributes of a tag, each with its value read back from its
  quoted form. \<open>nm\<close> is the name read so far and \<open>eq\<close> says that the last character was the
  \<^verbatim>\<open>=\<close> behind it. A quoted run that does not follow \<^verbatim>\<open>name=\<close> belongs to no attribute.
\<close>

definition next_name :: "string \<Rightarrow> bool \<Rightarrow> char \<Rightarrow> string" where
  "next_name nm eq c =
     (if c = CHR ''='' then (if eq then [] else nm)
      else if is_space c \<or> c = CHR ''/'' then []
      else (if eq then [] else nm) @ [c])"

fun attributes :: "string \<Rightarrow> bool \<Rightarrow> piece list \<Rightarrow> (string \<times> string) list" where
  "attributes nm eq [] = []"
| "attributes nm eq (Ch c # ps) = attributes (next_name nm eq c) (c = CHR ''='') ps"
| "attributes nm eq (Quoted q # ps) =
     (if eq then (nm, attr_unquote q) # attributes [] False ps else attributes [] False ps)"

definition tag_attributes :: "piece list \<Rightarrow> (string \<times> string) list" where
  "tag_attributes ps = attributes [] False ps"

text \<open>
  Modelled from the spec: replacing the \<^verbatim>\<open>content\<close> attribute value. \<open>set_content new\<close>
  puts \<open>new\<close> between the quotes of the first attribute named \<^verbatim>\<open>content\<close> and copies every
  other piece.
\<close>

fun set_content :: "string \<Rightarrow> string \<Rightarrow> bool \<Rightarrow> piece list \<Rightarrow> piece list" where
  "set_content new nm eq [] = []"
| "set_content new nm eq (Ch c # ps) =
     Ch c # set_content new (next_name nm eq c) (c = CHR ''='') ps"
| "set_content new nm eq (Quoted q # ps) =
     (if eq \<and> nm = ''content'' then Quoted new # ps
      else Quoted q # set_content new [] False ps)"

text \<open>
  Modelled from the spec: one substitution on one tag. A tag that carries the attribute
  \<open>a\<close> with the value \<open>v\<close> gets the content \<open>c\<close>, quoted; any other tag stays as it is.
\<close>

definition retag :: "string \<Rightarrow> string \<Rightarrow> string \<Rightarrow> piece list \<Rightarrow> piece list" where
  "retag a v c ps =
     (if (a, v) \<in> set (tag_attributes ps) then set_content (attr_quote c) [] False ps else ps)"

subsection \<open>The document\<close>

text \<open>
  Modelled from the spec: the HTML text as a list of items. An item is a character
  outside meta tags, a meta tag with its white-space character and its pieces, or, at the
  end of the text, a \<^verbatim>\<open><meta\<close> whose tag never closes together with all that follows.
\<close>

datatype item = Text char | Meta char "piece list" | Unclosed string

text \<open>
  Modelled from the spec: \<open>meta_open s\<close> recognises \<^verbatim>\<open><meta\<close> and a white-space character
  at the start of \<open>s\<close> and returns that character and the text behind it.
\<close>

definition meta_open :: "string \<Rightarrow> (char \<times> string) option" where
  "meta_open s =
     (if take 5 s = ''<meta'' then
        (case drop 5 s of
           [] \<Rightarrow> None
         | w # inside \<Rightarrow> if is_space w then Some (w, inside) else None)
      else None)"

lemma meta_open_Some: "meta_open s = Some (w, inside) \<longleftrightarrow> s = ''<meta'' @ w # inside \<and> is_space w"
proof
  assume "meta_open s = Some (w, inside)"
  then have t: "take 5 s = ''<meta''" and d: "drop 5 s = w # inside" and w: "is_space w"
    by (auto simp: meta_open_def split: if_splits list.splits)
  have "s = take 5 s @ drop 5 s" by simp
  with t d w show "s = ''<meta'' @ w # inside \<and> is_space w" by simp
next
  assume "s = ''<meta'' @ w # inside \<and> is_space w"
  then show "meta_open s = Some (w, inside)" by (simp add: meta_open_def)
qed

text \<open>Modelled from the spec: locating the meta tags of a text, from left to right.\<close>

function items :: "string \<Rightarrow> item list" where
  "items [] = []"
| "items (x # xs) =
     (case meta_open (x # xs) of
        None \<Rightarrow> Text x # items xs
      | Some (w, inside) \<Rightarrow>
          (case lex_tag inside of
             None \<Rightarrow> [Unclosed (x # xs)]
           | Some (ps, rest) \<Rightarrow> Meta w ps # items rest))"
  by pat_completeness auto
termination
proof (relation "measure length")
  show "wf (measure length)" by simp
next
  fix x :: char and xs
  show "(xs, x # xs) \<in> measure length" by simp
next
  fix x :: char and xs p w inside q ps rest
  assume "meta_open (x # xs) = Some p" "(w, inside) = p" "lex_tag inside = Some q" "(ps, rest) = q"
  then have "x # xs = ''<meta'' @ w # inside" and "length rest < length inside"
    using meta_open_Some lex_tag_shorter by metis+
  then have "length rest < length (x # xs)" by simp
  then show "(rest, x # xs) \<in> measure length" by simp
qed

fun print_item :: "item \<Rightarrow> string" where
  "print_item (Text c) = [c]"
| "print_item (Meta w ps) = ''<meta'' @ [w] @ print_pieces ps @ ''>''"
| "print_item (Unclosed s) = s"

definition print_items :: "item list \<Rightarrow> string" where
  "print_items is = concat (map print_item is)"

fun map_meta :: "(piece list \<Rightarrow> piece list) \<Rightarrow> item \<Rightarrow> item" where
  "map_meta g (Meta w ps) = Meta w (g ps)"
| "map_meta g i = i"

text \<open>
  Modelled from the spec: \<^verbatim>\<open>replaceMetaTag(text, a, v, c)\<close>. Every meta tag of the text that
  matches the pair gets the content; the text is printed back from its items.
\<close>

definition replaceMetaTag :: "string \<Rightarrow> string \<Rightarrow> string \<Rightarrow> string \<Rightarrow> string" where
  "replaceMetaTag text a v c = print_items (map (map_meta (retag a v c)) (items text))"

subsection \<open>Reading a document\<close>

text \<open>
  The meta tags of a text, the decoded value of the first \<^verbatim>\<open>content\<close> attribute of a tag,
  and the content of the first tag of a text that carries a given pair and has a content.
\<close>

fun metas :: "item list \<Rightarrow> piece list list" where
  "metas [] = []"
| "metas (Meta w ps # is) = ps # metas is"
| "metas (Text c # is) = metas is"
| "metas (Unclosed s # is) = metas is"

definition meta_tags :: "string \<Rightarrow> piece list list" where
  "meta_tags text = metas (items text)"

definition content_of :: "piece list \<Rightarrow> string option" where
  "content_of ps = map_of (tag_attributes ps) ''content''"

definition meta_content :: "string \<Rightarrow> string \<Rightarrow> string \<Rightarrow> string option" where
  "meta_content text a v =
     (case find (\<lambda>ps. (a, v) \<in> set (tag_attributes ps) \<and> content_of ps \<noteq> None) (meta_tags text) of
        None \<Rightarrow> None
      | Some ps \<Rightarrow> content_of ps)"

subsection \<open>Notions for the proofs\<close>

text \<open>
  Pieces as the lexer produces them: no character piece is a double quote or \<^verbatim>\<open>>\<close>, no
  quoted run contains a double quote.
\<close>

fun wf_piece :: "piece \<Rightarrow> bool" where
  "wf_piece (Ch c) \<longleftrightarrow> c \<noteq> CHR 0x22 \<and> c \<noteq> CHR ''>''"
| "wf_piece (Quoted q) \<longleftrightarrow> CHR 0x22 \<notin> set q"

fun wf_item :: "item \<Rightarrow> bool" where
  "wf_item (Meta w ps) \<longleftrightarrow> list_all wf_piece ps"
| "wf_item i \<longleftrightarrow> True"

definition keeps_wf :: "(piece list \<Rightarrow> piece list) \<Rightarrow> bool" where
  "keeps_wf g \<longleftrightarrow> (\<forall>ps. list_all wf_piece ps \<longrightarrow> list_all wf_piece (g ps))"

text \<open>The attribute list of a tag after \<open>set_content\<close>.\<close>

fun set_first :: "string \<Rightarrow> (string \<times> string) list \<Rightarrow> (string \<times> string) list" where
  "set_first val [] = []"
| "set_first val ((n, x) # r) =
     (if n = ''content'' then (n, val) # r else (n, x) # set_first val r)"

text \<open>Several substitutions, one after the other, on one tag.\<close>

definition retag_all :: "(string \<times> string \<times> string) list \<Rightarrow> piece list \<Rightarrow> piece list" where
  "retag_all ks ps = foldl (\<lambda>ps (a, v, c). retag a v c ps) ps ks"

subsection \<open>The seven substitutions of the middleware\<close>

text \<open>
  The content of a string value, and the middleware's list of triples with the contents
  as strings.
\<close>

fun str_of :: "jsval \<Rightarrow> string" where
  "str_of (JStr s) = s"
| "str_of v = []"

definition text_substitutions :: "page_meta \<Rightarrow> (string \<times> string \<times> string) list" where
  "text_substitutions m = map (\<lambda>(a, v, c). (a, v, str_of c)) (substitutions m)"

text \<open>
  The seven targeted meta tags, as the specification lists them: each a pair of attribute
  name and attribute value.
\<close>

definition targets :: "(string \<times> string) list" where
  "targets =
     [(''name'', ''description''),
      (''property'', ''og:title''),
      (''property'', ''og:description''),
      (''property'', ''og:image''),
      (''name'', ''twitter:title''),
      (''name'', ''twitter:description''),
      (''name'', ''twitter:image'')]"

text \<open>
  A tag is targeted when it carries one of the seven pairs. The targets are disjoint in a
  text when no meta tag of it carries two different pairs.
\<close>

definition targeted :: "piece list \<Rightarrow> bool" where
  "targeted ps \<longleftrightarrow> (\<exists>k\<in>set targets. k \<in> set (tag_attributes ps))"

definition disjoint_targets :: "string \<Rightarrow> bool" where
  "disjoint_targets t \<longleftrightarrow>
     (\<forall>ps\<in>set (meta_tags t). \<forall>k\<in>set targets. \<forall>k'\<in>set targets.
        k \<in> set (tag_attributes ps) \<and> k' \<in> set (tag_attributes ps) \<longrightarrow> k = k')"

text \<open>
  Two items are the same but for the content when they are equal, or the first is a
  targeted meta tag and the second is that tag with another value between the quotes of
  its first \<^verbatim>\<open>content\<close> attribute.
\<close>

definition same_but_content :: "item \<Rightarrow> item \<Rightarrow> bool" where
  "same_but_content i j \<longleftrightarrow>
     j = i \<or> (\<exists>w ps new. i = Meta w ps \<and> targeted ps \<and> j = Meta w (set_content new [] False ps))"


text \<open>
  For the examples: a template with the seven tags, written in several ways, and an
  eighth tag; a function to stand for the imported one, which is the model of the
  substitution on a string content (on any other value it substitutes the empty string,
  a choice that no theorem rests on); and a world with that template whose concept-data
  service answers with a title and a description.
\<close>

definition shell :: string where
  \<open>shell = ''<head><meta name="description" content="CodeCrafters"><meta property="og:title" content=""><meta content="" property="og:description"><meta property="og:image" content="x.png"/><meta name="twitter:title" content=""><meta name="twitter:description" content=""><meta  name="twitter:image"  content=""><meta charset="utf-8"></head>''\<close>

definition model_rmt :: "string \<Rightarrow> string \<Rightarrow> string \<Rightarrow> jsval \<Rightarrow> string" where
  "model_rmt text a v c = replaceMetaTag text a v (str_of c)"

definition shell_world :: world where
  "shell_world =
     \<lparr>fetch_json = (\<lambda>u. Inr (JObj [(''title'', JStr ''Custom Title''),
                                     (''description_markdown'', JStr ''Custom desc'')])),
      index_file_text = Inr shell\<rparr>"



section \<open>Properties of the regular expressions\<close>

lemma match_here_Some:
  assumes "match_here lit s = Some g"
  shows "s = lit @ g @ dropWhile seg_char (drop (length lit) s)"
    and "g \<noteq> []"
    and "\<forall>c\<in>set g. seg_char c"
proof -
  let ?d = "drop (length lit) s"
  from assms have t: "take (length lit) s = lit" and g: "g = takeWhile seg_char ?d"
    and ne: "g \<noteq> []"
    by (auto simp: match_here_def split: if_splits)
  have "s = take (length lit) s @ ?d" by simp
  also have "?d = takeWhile seg_char ?d @ dropWhile seg_char ?d" by simp
  finally show "s = lit @ g @ dropWhile seg_char (drop (length lit) s)"
    using t g by simp
  show "g \<noteq> []" by (rule ne)
  show "\<forall>c\<in>set g. seg_char c" using g by (auto dest: set_takeWhileD)
qed

text \<open>
  A successful match splits the text around the leftmost occurrence of the literal that
  a segment character follows, and the group is the whole run of segment characters.
\<close>

lemma regex_match_Some:
  "regex_match lit s = Some g \<Longrightarrow>
     \<exists>pre rest. s = pre @ lit @ g @ rest \<and> g \<noteq> [] \<and> (\<forall>c\<in>set g. seg_char c)
       \<and> (rest = [] \<or> \<not> seg_char (hd rest))
       \<and> (\<forall>i<length pre. match_here lit (drop i s) = None)"
proof (induction s)
  case Nil
  then show ?case by (auto simp: match_here_def split: if_splits)
next
  case (Cons c cs)
  show ?case
  proof (cases "match_here lit (c # cs)")
    case None
    with Cons.prems have "regex_match lit cs = Some g" by simp
    from Cons.IH [OF this] obtain pre rest where
      d: "cs = pre @ lit @ g @ rest" and p: "g \<noteq> []" "\<forall>c\<in>set g. seg_char c"
        "rest = [] \<or> \<not> seg_char (hd rest)"
      and l: "\<forall>i<length pre. match_here lit (drop i cs) = None"
      by blast
    have "\<forall>i<length (c # pre). match_here lit (drop i (c # cs)) = None"
    proof (intro allI impI)
      fix i assume "i < length (c # pre)"
      then show "match_here lit (drop i (c # cs)) = None"
        using None l by (cases i) auto
    qed
    moreover from d have "c # cs = (c # pre) @ lit @ g @ rest" by simp
    ultimately show ?thesis using p by blast
  next
    case (Some g')
    with Cons.prems have "match_here lit (c # cs) = Some g" by simp
    from match_here_Some [OF this]
    have "c # cs = [] @ lit @ g @ dropWhile seg_char (drop (length lit) (c # cs))"
      and "g \<noteq> []" and "\<forall>c\<in>set g. seg_char c"
      by simp_all
    moreover have "dropWhile seg_char (drop (length lit) (c # cs)) = []
        \<or> \<not> seg_char (hd (dropWhile seg_char (drop (length lit) (c # cs))))"
      by (metis hd_dropWhile)
    moreover have "\<forall>i<length ([]::string). match_here lit (drop i (c # cs)) = None"
      by simp
    ultimately show ?thesis by blast
  qed
qed

text \<open>Conversely, any occurrence of the literal before a segment character is found.\<close>

lemma regex_match_occurrence:
  "s = pre @ lit @ g @ rest \<Longrightarrow> g \<noteq> [] \<Longrightarrow> seg_char (hd g) \<Longrightarrow> regex_match lit s \<noteq> None"
proof (induction pre arbitrary: s)
  case Nil
  then have "take (length lit) s = lit" by simp
  moreover have "drop (length lit) s = g @ rest" using Nil by simp
  moreover have "takeWhile seg_char (g @ rest) \<noteq> []" using Nil by (cases g) auto
  ultimately have "match_here lit s \<noteq> None" by (simp add: match_here_def)
  then show ?case by (cases s) auto
next
  case (Cons a pre)
  then show ?case by (auto split: option.splits)
qed

lemma regex_match_iff:
  "regex_match lit s \<noteq> None \<longleftrightarrow>
     (\<exists>pre seg rest. s = pre @ lit @ seg @ rest \<and> seg \<noteq> [] \<and> (\<forall>c\<in>set seg. seg_char c))"
proof
  assume "regex_match lit s \<noteq> None"
  then obtain g where "regex_match lit s = Some g" by auto
  from regex_match_Some [OF this] show
    "\<exists>pre seg rest. s = pre @ lit @ seg @ rest \<and> seg \<noteq> [] \<and> (\<forall>c\<in>set seg. seg_char c)"
    by blast
next
  assume "\<exists>pre seg rest. s = pre @ lit @ seg @ rest \<and> seg \<noteq> [] \<and> (\<forall>c\<in>set seg. seg_char c)"
  then obtain pre seg rest where a: "s = pre @ lit @ seg @ rest" and b: "seg \<noteq> []"
    and c: "\<forall>c\<in>set seg. seg_char c"
    by blast
  from b c have "seg_char (hd seg)" by simp
  with a b show "regex_match lit s \<noteq> None" by (rule regex_match_occurrence)
qed

lemma triggers_iff:
  "triggers u \<longleftrightarrow> regex_match ''/users/'' u \<noteq> None \<or> regex_match ''/concepts/'' u \<noteq> None"
  unfolding triggers_def names_route_def regex_match_iff seg_char_def ..

section \<open>Properties of the slug-to-title conversion\<close>

lemma split_not_Nil: "split d s \<noteq> []"
  by (induction s) (auto split: list.splits)

lemma join_Cons: "join sep (w # ws) = (if ws = [] then w else w @ sep @ join sep ws)"
  by (cases ws) auto

lemma join_split: "join [d] (split d s) = s"
proof (induction s)
  case Nil
  show ?case by simp
next
  case (Cons c cs)
  obtain w ws where "split d cs = w # ws"
    using split_not_Nil [of d cs] by (cases "split d cs") auto
  with Cons show ?case by (auto simp: join_Cons split: if_splits)
qed

lemma split_words: "w \<in> set (split d s) \<Longrightarrow> d \<notin> set w"
proof (induction s arbitrary: w)
  case Nil
  then show ?case by simp
next
  case (Cons c cs)
  obtain x xs where sp: "split d cs = x # xs"
    using split_not_Nil [of d cs] by (cases "split d cs") auto
  have "d \<notin> set x" "\<forall>y\<in>set xs. d \<notin> set y" using Cons.IH sp by auto
  with Cons.prems sp show ?case by (auto split: if_splits)
qed

lemma title_join:
  "join '' '' (map capitalize (split CHR ''-'' s)) = title_chars True s \<and>
   join '' '' (map toLowerCase (hd (split CHR ''-'' s)) # map capitalize (tl (split CHR ''-'' s)))
     = title_chars False s"
proof (induction s)
  case Nil
  show ?case by (simp add: capitalize_def)
next
  case (Cons c cs)
  obtain w ws where "split CHR ''-'' cs = w # ws"
    using split_not_Nil [of "CHR ''-''" cs] by (cases "split CHR ''-'' cs") auto
  with Cons show ?case
    by (auto simp: join_Cons capitalize_def)
qed

section \<open>The claims about the middleware\<close>

subsection \<open>User routes\<close>

text \<open>
  Claim C1, as the code has it. When the user expression matches the request URL with
  group \<open>username\<close>, the page metadata are: the image URL
  \<^verbatim>\<open>https://og.codecrafters.io/api/user_profile/\<close> followed by the user name, the title
  \<^verbatim>\<open>{username}'s CodeCrafters Profile\<close> and the description
  \<^verbatim>\<open>View {username}'s profile on CodeCrafters\<close>. The user name is the segment of the
  leftmost match: the URL is \<open>pre @ ''/users/'' @ username @ rest\<close>, the user name is not
  empty and has neither \<^verbatim>\<open>/\<close> nor \<^verbatim>\<open>?\<close>, it ends at the end of the URL or before one of
  the two, and the expression matches at no earlier position. With a readable template
  the response body is the template rewritten with these values, and nothing is logged.
\<close>

theorem user_route_metadata:
  assumes "regex_match ''/users/'' (url request) = Some username"
  shows "page_metadata w request =
      \<lparr>pageImageUrl = JStr (''https://og.codecrafters.io/api/user_profile/'' @ username),
       pageTitle = JStr (username @ [CHR 0x27] @ ''s CodeCrafters Profile''),
       pageDescription = JStr (''View '' @ username @ [CHR 0x27] @ ''s profile on CodeCrafters'')\<rparr>
    \<and> (\<exists>pre rest. url request = pre @ ''/users/'' @ username @ rest
          \<and> username \<noteq> [] \<and> (\<forall>c\<in>set username. c \<noteq> CHR ''/'' \<and> c \<noteq> CHR ''?'')
          \<and> (rest = [] \<or> hd rest = CHR ''/'' \<or> hd rest = CHR ''?'')
          \<and> (\<forall>i<length pre. match_here ''/users/'' (drop i (url request)) = None))
    \<and> (\<forall>t. index_file_text w = Inr t \<longrightarrow>
          middleware rmt w request =
            (Respond (new_Response (rewrite rmt t (page_metadata w request))
                        [(''Content-Type'', ''text/html'')]), []))"
proof -
  have m: "page_metadata w request =
      \<lparr>pageImageUrl = JStr (''https://og.codecrafters.io/api/user_profile/'' @ username),
       pageTitle = JStr (username @ [CHR 0x27] @ ''s CodeCrafters Profile''),
       pageDescription = JStr (''View '' @ username @ [CHR 0x27] @ ''s profile on CodeCrafters'')\<rparr>"
    using assms by (simp add: page_metadata_def)
  from regex_match_Some [OF assms] obtain pre rest where
    d: "url request = pre @ ''/users/'' @ username @ rest" "username \<noteq> []"
      "\<forall>c\<in>set username. seg_char c" "rest = [] \<or> \<not> seg_char (hd rest)"
      "\<forall>i<length pre. match_here ''/users/'' (drop i (url request)) = None"
    by blast
  then have s: "\<exists>pre rest. url request = pre @ ''/users/'' @ username @ rest
          \<and> username \<noteq> [] \<and> (\<forall>c\<in>set username. c \<noteq> CHR ''/'' \<and> c \<noteq> CHR ''?'')
          \<and> (rest = [] \<or> hd rest = CHR ''/'' \<or> hd rest = CHR ''?'')
          \<and> (\<forall>i<length pre. match_here ''/users/'' (drop i (url request)) = None)"
    unfolding seg_char_def by blast
  have r: "\<forall>t. index_file_text w = Inr t \<longrightarrow>
          middleware rmt w request =
            (Respond (new_Response (rewrite rmt t (page_metadata w request))
                        [(''Content-Type'', ''text/html'')]), [])"
    using assms by (simp add: middleware_def page_metadata_def)
  from m s r show ?thesis by blast
qed

theorem user_route_metadata_witness:
  "regex_match ''/users/'' (url \<lparr>url = ''https://app.codecrafters.io/users/alice''\<rparr>) = Some ''alice''
   \<and> page_metadata offline_world \<lparr>url = ''https://app.codecrafters.io/users/alice''\<rparr> =
      \<lparr>pageImageUrl = JStr ''https://og.codecrafters.io/api/user_profile/alice'',
       pageTitle = JStr (''alice'' @ [CHR 0x27] @ ''s CodeCrafters Profile''),
       pageDescription = JStr (''View alice'' @ [CHR 0x27] @ ''s profile on CodeCrafters'')\<rparr>"
proof -
  have u: "regex_match ''/users/'' (url \<lparr>url = ''https://app.codecrafters.io/users/alice''\<rparr>)
      = Some ''alice''"
    by (simp add: match_here_def seg_char_def)
  show ?thesis
    using u user_route_metadata [OF u, of offline_world "\<lambda>text a v c. text"]
    by simp
qed

text \<open>
  The title and the description of claim C1 as the claim words them, without
  \<^verbatim>\<open>CodeCrafters\<close>, are not what the middleware derives for \<^verbatim>\<open>/users/alice\<close>.
\<close>

theorem user_title_counterexample:
  "regex_match ''/users/'' (url \<lparr>url = ''https://app.codecrafters.io/users/alice''\<rparr>) = Some ''alice''
   \<and> pageTitle (page_metadata offline_world \<lparr>url = ''https://app.codecrafters.io/users/alice''\<rparr>)
       \<noteq> JStr (''alice'' @ [CHR 0x27] @ ''s Profile'')
   \<and> pageDescription (page_metadata offline_world \<lparr>url = ''https://app.codecrafters.io/users/alice''\<rparr>)
       \<noteq> JStr (''View alice'' @ [CHR 0x27] @ ''s profile'')"
  by (simp add: page_metadata_def match_here_def seg_char_def)

subsection \<open>Concept routes: the fallback title\<close>

text \<open>
  Claim C3. The fallback title of a slug is the slug with every hyphen turned into one
  space, the first character of every word upper-cased and the others lower-cased
  (\<open>title_chars\<close>). The words are the pieces of the slug between its hyphens: joined by
  hyphens they give the slug back, and none contains a hyphen. The fallback description is
  \<^verbatim>\<open>View the {fallback title} concept on CodeCrafters\<close>, and these two strings are what
  the concept branch holds after a failed fetch.
\<close>

theorem fallback_title_by_characters:
  "fallback_title slug = title_chars True slug
   \<and> join ''-'' (split CHR ''-'' slug) = slug
   \<and> (\<forall>word\<in>set (split CHR ''-'' slug). CHR ''-'' \<notin> set word)
   \<and> fallback_description slug = ''View the '' @ title_chars True slug @ '' concept on CodeCrafters''
   \<and> (\<forall>e. fetch_json w (concept_data_url slug) = Inl e \<longrightarrow>
         fst (concept_try w slug) =
           (JStr (title_chars True slug),
            JStr (''View the '' @ title_chars True slug @ '' concept on CodeCrafters'')))"
proof -
  have t: "fallback_title slug = title_chars True slug"
    using title_join [of slug] by (simp add: fallback_title_def)
  have j: "join ''-'' (split CHR ''-'' slug) = slug"
    by (rule join_split)
  have s: "\<forall>word\<in>set (split CHR ''-'' slug). CHR ''-'' \<notin> set word"
    using split_words by blast
  have d: "fallback_description slug = ''View the '' @ title_chars True slug @ '' concept on CodeCrafters''"
    by (simp add: fallback_description_def t)
  have c: "\<forall>e. fetch_json w (concept_data_url slug) = Inl e \<longrightarrow>
         fst (concept_try w slug) =
           (JStr (title_chars True slug),
            JStr (''View the '' @ title_chars True slug @ '' concept on CodeCrafters''))"
    using t d by (simp add: concept_try_def catch_block_def)
  from t j s d c show ?thesis by blast
qed


theorem fallback_title_by_characters_witness:
  "fallback_title ''network-protocols'' = ''Network Protocols''
   \<and> fallback_description ''network-protocols'' = ''View the Network Protocols concept on CodeCrafters''
   \<and> split CHR ''-'' ''network-protocols'' = [''network'', ''protocols'']
   \<and> fetch_json offline_world (concept_data_url ''network-protocols'') = Inl FetchRejected
   \<and> fst (concept_try offline_world ''network-protocols'') =
        (JStr ''Network Protocols'', JStr ''View the Network Protocols concept on CodeCrafters'')"
proof -
  have e: "title_chars True ''network-protocols'' = ''Network Protocols''"
    by code_simp
  have f: "fetch_json offline_world (concept_data_url ''network-protocols'') = Inl FetchRejected"
    by (simp add: offline_world_def)
  have sp: "split CHR ''-'' ''network-protocols'' = [''network'', ''protocols'']"
    by simp
  note th = fallback_title_by_characters [of "''network-protocols''" offline_world]
  from th e have a: "fallback_title ''network-protocols'' = ''Network Protocols''" by simp
  from th e have b: "fallback_description ''network-protocols'' = ''View the Network Protocols concept on CodeCrafters''"
    by simp
  from th e f have c: "fst (concept_try offline_world ''network-protocols'') =
        (JStr ''Network Protocols'', JStr ''View the Network Protocols concept on CodeCrafters'')"
    by simp
  from a b sp f c show ?thesis by blast
qed

subsection \<open>Requests that match neither expression\<close>

text \<open>
  Claim C4. When neither expression matches the request URL, the middleware logs one
  error that carries the URL and returns \<^verbatim>\<open>next(request)\<close> with the request it was given:
  no response of its own, no rejection, whatever the world and \<^verbatim>\<open>replaceMetaTag\<close> are.
\<close>

theorem unparsable_url_is_passed_on:
  assumes "regex_match ''/users/'' (url request) = None"
    and "regex_match ''/concepts/'' (url request) = None"
  shows "middleware rmt w request =
    (Next request,
     [ConsoleError [LStr ''Unable to parse username or concept slug from the URL:'',
                    LStr (url request)]])"
  using assms by (simp add: middleware_def)

theorem unparsable_url_is_passed_on_witness:
  "regex_match ''/users/'' (url \<lparr>url = ''https://app.codecrafters.io/about''\<rparr>) = None
   \<and> regex_match ''/concepts/'' (url \<lparr>url = ''https://app.codecrafters.io/about''\<rparr>) = None
   \<and> middleware (\<lambda>text a v c. text) broken_world \<lparr>url = ''https://app.codecrafters.io/about''\<rparr> =
    (Next \<lparr>url = ''https://app.codecrafters.io/about''\<rparr>,
     [ConsoleError [LStr ''Unable to parse username or concept slug from the URL:'',
                    LStr ''https://app.codecrafters.io/about'']])"
proof -
  have u: "regex_match ''/users/'' (url \<lparr>url = ''https://app.codecrafters.io/about''\<rparr>) = None"
    by (simp add: match_here_def seg_char_def)
  have c: "regex_match ''/concepts/'' (url \<lparr>url = ''https://app.codecrafters.io/about''\<rparr>) = None"
    by (simp add: match_here_def seg_char_def)
  show ?thesis
    using u c unparsable_url_is_passed_on [OF u c, of "\<lambda>text a v c. text" broken_world]
    by simp
qed

subsection \<open>Concept routes: a failed metadata fetch\<close>




subsection \<open>The response\<close>

text \<open>
  Claim C8, with the condition the code needs. When one of the two expressions matches
  and the template can be read, the middleware returns a response with status 200, the
  single header \<^verbatim>\<open>Content-Type: text/html\<close> and the rewritten template as its body; and
  any response the middleware ever returns has status 200 and that header.
\<close>

theorem matched_request_response:
  "((regex_match ''/users/'' (url request) \<noteq> None \<or> regex_match ''/concepts/'' (url request) \<noteq> None)
      \<and> index_file_text w = Inr indexFileText \<longrightarrow>
    fst (middleware rmt w request) =
      Respond \<lparr>status = 200, headers = [(''Content-Type'', ''text/html'')],
               body = rewrite rmt indexFileText (page_metadata w request)\<rparr>)
   \<and> (\<forall>r. fst (middleware rmt w request) = Respond r \<longrightarrow>
         status r = 200 \<and> headers r = [(''Content-Type'', ''text/html'')])"
proof -
  have a: "(regex_match ''/users/'' (url request) \<noteq> None \<or> regex_match ''/concepts/'' (url request) \<noteq> None)
      \<and> index_file_text w = Inr indexFileText \<longrightarrow>
    fst (middleware rmt w request) =
      Respond \<lparr>status = 200, headers = [(''Content-Type'', ''text/html'')],
               body = rewrite rmt indexFileText (page_metadata w request)\<rparr>"
    by (auto simp: middleware_def page_metadata_def new_Response_def Let_def split: prod.splits)
  have b: "\<forall>r. fst (middleware rmt w request) = Respond r \<longrightarrow>
         status r = 200 \<and> headers r = [(''Content-Type'', ''text/html'')]"
    by (auto simp: middleware_def new_Response_def Let_def split: prod.splits sum.splits if_splits)
  from a b show ?thesis by blast
qed

theorem matched_request_response_witness:
  "regex_match ''/users/'' (url \<lparr>url = ''https://app.codecrafters.io/users/alice''\<rparr>) = Some ''alice''
   \<and> index_file_text offline_world = Inr ''<html><head></head></html>''
   \<and> fst (middleware (\<lambda>text a v c. text) offline_world \<lparr>url = ''https://app.codecrafters.io/users/alice''\<rparr>)
       = Respond \<lparr>status = 200, headers = [(''Content-Type'', ''text/html'')],
                  body = ''<html><head></head></html>''\<rparr>
   \<and> status \<lparr>status = 200, headers = [(''Content-Type'', ''text/html'')],
                  body = ''<html><head></head></html>''\<rparr> = 200"
proof -
  let ?r = "\<lparr>url = ''https://app.codecrafters.io/users/alice''\<rparr>"
  have u: "regex_match ''/users/'' (url ?r) = Some ''alice''"
    by (simp add: match_here_def seg_char_def)
  have i: "index_file_text offline_world = Inr ''<html><head></head></html>''"
    by (simp add: offline_world_def)
  have b: "rewrite (\<lambda>text a v c. text) ''<html><head></head></html>'' (page_metadata offline_world ?r)
      = ''<html><head></head></html>''"
    by (simp add: rewrite_def substitutions_def)
  show ?thesis
    using matched_request_response [of ?r offline_world "''<html><head></head></html>''" "\<lambda>text a v c. text"]
      u i b
    by simp
qed

text \<open>
  Claim C8 as stated promises a response for every matched request. A matched request
  whose template cannot be read gets none: the invocation is rejected.
\<close>

theorem unreadable_template_counterexample:
  "regex_match ''/users/'' (url \<lparr>url = ''https://app.codecrafters.io/users/alice''\<rparr>) = Some ''alice''
   \<and> fst (middleware (\<lambda>text a v c. text) broken_world
             \<lparr>url = ''https://app.codecrafters.io/users/alice''\<rparr>)
        = Rejected FetchRejected"
  by (simp add: middleware_def broken_world_def match_here_def seg_char_def split: prod.splits)

subsection \<open>The trigger\<close>

text \<open>
  Claim C6, as the code has it. The trigger is a test on the whole string
  \<^verbatim>\<open>request.url\<close>, host, path, query string and fragment: the string triggers when it
  contains \<^verbatim>\<open>/users/\<close> or \<^verbatim>\<open>/concepts/\<close> directly followed by a character other than
  \<^verbatim>\<open>/\<close> and \<^verbatim>\<open>?\<close>. The middleware passes the request on exactly when the string does
  not trigger. With a readable template it returns the response with the rewritten
  template exactly when the string triggers; with an unreadable template the invocation
  is rejected exactly when the string triggers.
\<close>

theorem rewrite_trigger:
  "((fst (middleware rmt w request) = Next request) \<longleftrightarrow> \<not> triggers (url request))
   \<and> (\<forall>t. index_file_text w = Inr t \<longrightarrow>
         ((fst (middleware rmt w request) =
             Respond \<lparr>status = 200, headers = [(''Content-Type'', ''text/html'')],
                      body = rewrite rmt t (page_metadata w request)\<rparr>)
          \<longleftrightarrow> triggers (url request)))
   \<and> (\<forall>e. index_file_text w = Inl e \<longrightarrow>
         ((fst (middleware rmt w request) = Rejected e) \<longleftrightarrow> triggers (url request)))"
proof -
  have a: "(fst (middleware rmt w request) = Next request) \<longleftrightarrow> \<not> triggers (url request)"
    unfolding triggers_iff
    by (auto simp: middleware_def Let_def split: prod.splits sum.splits)
  have b: "\<forall>t. index_file_text w = Inr t \<longrightarrow>
         ((fst (middleware rmt w request) =
             Respond \<lparr>status = 200, headers = [(''Content-Type'', ''text/html'')],
                      body = rewrite rmt t (page_metadata w request)\<rparr>)
          \<longleftrightarrow> triggers (url request))"
    unfolding triggers_iff
    by (auto simp: middleware_def page_metadata_def new_Response_def Let_def split: prod.splits)
  have c: "\<forall>e. index_file_text w = Inl e \<longrightarrow>
         ((fst (middleware rmt w request) = Rejected e) \<longleftrightarrow> triggers (url request))"
    unfolding triggers_iff
    by (auto simp: middleware_def Let_def split: prod.splits)
  from a b c show ?thesis by (intro conjI)
qed

theorem rewrite_trigger_witness:
  "triggers ''https://app.codecrafters.io/users?next=/concepts/dns''
   \<and> index_file_text offline_world = Inr ''<html><head></head></html>''
   \<and> fst (middleware (\<lambda>text a v c. text) offline_world
          \<lparr>url = ''https://app.codecrafters.io/users?next=/concepts/dns''\<rparr>)
       = Respond \<lparr>status = 200, headers = [(''Content-Type'', ''text/html'')],
                  body = ''<html><head></head></html>''\<rparr>"
proof -
  let ?u = "''https://app.codecrafters.io/users?next=/concepts/dns''"
  let ?q = "\<lparr>url = ?u\<rparr>"
  have "?u = ''https://app.codecrafters.io/users?next='' @ ''/concepts/'' @ ''dns'' @ []
      \<and> ''dns'' \<noteq> [] \<and> (\<forall>c\<in>set ''dns''. c \<noteq> CHR ''/'' \<and> c \<noteq> CHR ''?'')"
    by simp
  then have "names_route ''/concepts/'' ?u"
    unfolding names_route_def by (intro exI)
  then have t: "triggers ?u" by (simp only: triggers_def simp_thms)
  then have t': "triggers (url ?q)" by simp
  have i: "index_file_text offline_world = Inr ''<html><head></head></html>''"
    by (simp add: offline_world_def)
  have b: "rewrite (\<lambda>text a v c. text) ''<html><head></head></html>'' (page_metadata offline_world ?q)
      = ''<html><head></head></html>''"
    by (simp add: rewrite_def substitutions_def)
  note th = rewrite_trigger [of "\<lambda>text a v c. text" offline_world ?q]
  note r = th [THEN conjunct2, THEN conjunct1, rule_format, OF i]
  from r t' have "fst (middleware (\<lambda>text a v c. text) offline_world ?q) =
      Respond \<lparr>status = 200, headers = [(''Content-Type'', ''text/html'')],
               body = rewrite (\<lambda>text a v c. text) ''<html><head></head></html>''
                        (page_metadata offline_world ?q)\<rparr>"
    by (rule iffD2)
  then have o: "fst (middleware (\<lambda>text a v c. text) offline_world ?q) =
      Respond \<lparr>status = 200, headers = [(''Content-Type'', ''text/html'')],
               body = ''<html><head></head></html>''\<rparr>"
    by (simp only: b)
  show ?thesis by (intro conjI t i o)
qed

text \<open>
  Claim C6 says that the trigger depends on the path alone. Two URLs with the same path
  \<^verbatim>\<open>/users\<close>, which matches neither pattern: the one whose query string contains
  \<^verbatim>\<open>/concepts/dns\<close> is rewritten, the other is passed on.
\<close>

theorem query_string_counterexample:
  "url_path ''https://app.codecrafters.io/users?next=/concepts/dns'' = ''/users''
   \<and> url_path ''https://app.codecrafters.io/users'' = ''/users''
   \<and> regex_match ''/users/'' ''/users'' = None
   \<and> regex_match ''/concepts/'' ''/users'' = None
   \<and> fst (middleware (\<lambda>text a v c. text) offline_world
             \<lparr>url = ''https://app.codecrafters.io/users?next=/concepts/dns''\<rparr>)
       = Respond \<lparr>status = 200, headers = [(''Content-Type'', ''text/html'')],
                  body = ''<html><head></head></html>''\<rparr>
   \<and> fst (middleware (\<lambda>text a v c. text) offline_world \<lparr>url = ''https://app.codecrafters.io/users''\<rparr>)
       = Next \<lparr>url = ''https://app.codecrafters.io/users''\<rparr>"
  by (simp add: url_path_def middleware_def offline_world_def match_here_def seg_char_def
      concept_try_def catch_block_def new_Response_def rewrite_def substitutions_def)

subsection \<open>Concept routes: fields missing from the concept data\<close>

text \<open>
  Claim C10, as the code has it. On a concept route, when the fetch and the JSON parse
  succeed with an object, the page title and the page description are the object's \<^verbatim>\<open>title\<close> and
  \<^verbatim>\<open>description_markdown\<close> properties, \<^verbatim>\<open>undefined\<close> for a missing one, which is not the
  fallback; nothing is logged. The \<^verbatim>\<open>catch\<close> block, which alone keeps the fallback, runs
  exactly when the \<^verbatim>\<open>try\<close> block throws: the fetch or the parse fails, or they succeed
  with \<^verbatim>\<open>null\<close> (or with \<^verbatim>\<open>undefined\<close>, which no JSON body gives), whose property cannot
  be read. When it runs, the page title and description are the fallback values; when
  it does not run, both are properties of the returned data.
\<close>

theorem missing_fields_replace_fallback:
  assumes "regex_match ''/users/'' (url request) = None"
    and "regex_match ''/concepts/'' (url request) = Some conceptSlug"
  shows "(\<forall>kvs. fetch_json w (concept_data_url conceptSlug) = Inr (JObj kvs) \<longrightarrow>
            pageTitle (page_metadata w request) =
              (case map_of kvs ''title'' of None \<Rightarrow> JUndefined | Some v \<Rightarrow> v)
          \<and> pageDescription (page_metadata w request) =
              (case map_of kvs ''description_markdown'' of None \<Rightarrow> JUndefined | Some v \<Rightarrow> v)
          \<and> (map_of kvs ''title'' = None \<longrightarrow>
                pageTitle (page_metadata w request) = JUndefined
                \<and> pageTitle (page_metadata w request) \<noteq> JStr (fallback_title conceptSlug))
          \<and> (map_of kvs ''description_markdown'' = None \<longrightarrow>
                pageDescription (page_metadata w request) = JUndefined
                \<and> pageDescription (page_metadata w request) \<noteq> JStr (fallback_description conceptSlug))
          \<and> snd (middleware rmt w request) = [])
    \<and> (snd (concept_try w conceptSlug) \<noteq> [] \<longleftrightarrow>
          (\<exists>e. fetch_json w (concept_data_url conceptSlug) = Inl e)
          \<or> fetch_json w (concept_data_url conceptSlug) = Inr JNull
          \<or> fetch_json w (concept_data_url conceptSlug) = Inr JUndefined)
    \<and> (snd (concept_try w conceptSlug) = [] \<longrightarrow>
          (\<exists>conceptData. fetch_json w (concept_data_url conceptSlug) = Inr conceptData
             \<and> get_prop conceptData ''title'' = Inr (pageTitle (page_metadata w request))
             \<and> get_prop conceptData ''description_markdown''
                 = Inr (pageDescription (page_metadata w request))))
    \<and> (snd (concept_try w conceptSlug) \<noteq> [] \<longrightarrow>
          pageTitle (page_metadata w request) = JStr (fallback_title conceptSlug)
          \<and> pageDescription (page_metadata w request) = JStr (fallback_description conceptSlug))"
proof -
  have m: "page_metadata w request =
      \<lparr>pageImageUrl = JStr (''https://og.codecrafters.io/api/concept/'' @ conceptSlug),
       pageTitle = fst (fst (concept_try w conceptSlug)),
       pageDescription = snd (fst (concept_try w conceptSlug))\<rparr>"
    using assms by (simp add: page_metadata_def split: prod.splits)
  have l: "snd (middleware rmt w request) = snd (concept_try w conceptSlug)"
    using assms by (simp add: middleware_def split: prod.splits sum.splits)
  have a: "\<forall>kvs. fetch_json w (concept_data_url conceptSlug) = Inr (JObj kvs) \<longrightarrow>
            pageTitle (page_metadata w request) =
              (case map_of kvs ''title'' of None \<Rightarrow> JUndefined | Some v \<Rightarrow> v)
          \<and> pageDescription (page_metadata w request) =
              (case map_of kvs ''description_markdown'' of None \<Rightarrow> JUndefined | Some v \<Rightarrow> v)
          \<and> (map_of kvs ''title'' = None \<longrightarrow>
                pageTitle (page_metadata w request) = JUndefined
                \<and> pageTitle (page_metadata w request) \<noteq> JStr (fallback_title conceptSlug))
          \<and> (map_of kvs ''description_markdown'' = None \<longrightarrow>
                pageDescription (page_metadata w request) = JUndefined
                \<and> pageDescription (page_metadata w request) \<noteq> JStr (fallback_description conceptSlug))
          \<and> snd (middleware rmt w request) = []"
    by (simp add: m l concept_try_def)
  have b: "snd (concept_try w conceptSlug) \<noteq> [] \<longleftrightarrow>
          (\<exists>e. fetch_json w (concept_data_url conceptSlug) = Inl e)
          \<or> fetch_json w (concept_data_url conceptSlug) = Inr JNull
          \<or> fetch_json w (concept_data_url conceptSlug) = Inr JUndefined"
  proof (cases "fetch_json w (concept_data_url conceptSlug)")
    case (Inl e)
    then show ?thesis by (simp add: concept_try_def catch_block_def)
  next
    case (Inr v)
    then show ?thesis by (cases v) (simp_all add: concept_try_def catch_block_def)
  qed
  have c: "snd (concept_try w conceptSlug) = [] \<longrightarrow>
          (\<exists>conceptData. fetch_json w (concept_data_url conceptSlug) = Inr conceptData
             \<and> get_prop conceptData ''title'' = Inr (pageTitle (page_metadata w request))
             \<and> get_prop conceptData ''description_markdown''
                 = Inr (pageDescription (page_metadata w request)))"
  proof (cases "fetch_json w (concept_data_url conceptSlug)")
    case (Inl e)
    then show ?thesis by (simp add: concept_try_def catch_block_def)
  next
    case (Inr v)
    then show ?thesis by (cases v) (simp_all add: m concept_try_def catch_block_def)
  qed
  have d: "snd (concept_try w conceptSlug) \<noteq> [] \<longrightarrow>
          pageTitle (page_metadata w request) = JStr (fallback_title conceptSlug)
          \<and> pageDescription (page_metadata w request) = JStr (fallback_description conceptSlug)"
  proof (cases "fetch_json w (concept_data_url conceptSlug)")
    case (Inl e)
    then show ?thesis by (simp add: m concept_try_def catch_block_def)
  next
    case (Inr v)
    then show ?thesis by (cases v) (simp_all add: m concept_try_def catch_block_def)
  qed
  from a b c d show ?thesis by blast
qed

theorem missing_fields_replace_fallback_witness:
  "regex_match ''/users/'' (url \<lparr>url = ''https://app.codecrafters.io/concepts/dns''\<rparr>) = None
   \<and> regex_match ''/concepts/'' (url \<lparr>url = ''https://app.codecrafters.io/concepts/dns''\<rparr>) = Some ''dns''
   \<and> fetch_json sparse_world (concept_data_url ''dns'') = Inr (JObj [(''slug'', JStr ''dns'')])
   \<and> map_of [(''slug'', JStr ''dns'')] ''title'' = None
   \<and> map_of [(''slug'', JStr ''dns'')] ''description_markdown'' = None
   \<and> pageTitle (page_metadata sparse_world \<lparr>url = ''https://app.codecrafters.io/concepts/dns''\<rparr>) = JUndefined
   \<and> pageDescription (page_metadata sparse_world \<lparr>url = ''https://app.codecrafters.io/concepts/dns''\<rparr>)
        = JUndefined
   \<and> snd (concept_try sparse_world ''dns'') = []"
proof -
  let ?r = "\<lparr>url = ''https://app.codecrafters.io/concepts/dns''\<rparr>"
  have u: "regex_match ''/users/'' (url ?r) = None"
    by (simp add: match_here_def seg_char_def)
  have c: "regex_match ''/concepts/'' (url ?r) = Some ''dns''"
    by (simp add: match_here_def seg_char_def)
  have f: "fetch_json sparse_world (concept_data_url ''dns'') = Inr (JObj [(''slug'', JStr ''dns'')])"
    by (simp add: sparse_world_def)
  have t: "map_of [(''slug'', JStr ''dns'')] ''title'' = None"
    and d: "map_of [(''slug'', JStr ''dns'')] ''description_markdown'' = None"
    by simp_all
  note th = missing_fields_replace_fallback [OF u c, of sparse_world "\<lambda>text a v c. text"]
  from th f t have p: "pageTitle (page_metadata sparse_world ?r) = JUndefined" by simp
  from th f d have q: "pageDescription (page_metadata sparse_world ?r) = JUndefined" by simp
  from th f have s: "snd (concept_try sparse_world ''dns'') = []" by simp
  from u c f t d p q s show ?thesis by blast
qed

text \<open>
  Claim C10 says that the fallback is kept only when the fetch or the JSON parse throws.
  With the JSON body \<^verbatim>\<open>null\<close> both succeed, reading \<^verbatim>\<open>conceptData.title\<close> throws inside the
  \<^verbatim>\<open>try\<close> block, and the fallback title and description are kept.
\<close>

theorem null_body_counterexample:
  "regex_match ''/users/'' (url \<lparr>url = ''https://app.codecrafters.io/concepts/dns''\<rparr>) = None
   \<and> regex_match ''/concepts/'' (url \<lparr>url = ''https://app.codecrafters.io/concepts/dns''\<rparr>) = Some ''dns''
   \<and> fetch_json null_world (concept_data_url ''dns'') = Inr JNull
   \<and> page_metadata null_world \<lparr>url = ''https://app.codecrafters.io/concepts/dns''\<rparr> =
       \<lparr>pageImageUrl = JStr ''https://og.codecrafters.io/api/concept/dns'',
        pageTitle = JStr (fallback_title ''dns''),
        pageDescription = JStr (fallback_description ''dns'')\<rparr>
   \<and> fallback_title ''dns'' = ''Dns''
   \<and> snd (middleware (\<lambda>text a v c. text) null_world
             \<lparr>url = ''https://app.codecrafters.io/concepts/dns''\<rparr>)
       = [ConsoleError [LErr NullPropertyRead], ConsoleLog [LStr ''ignoring error for now'']]"
proof -
  let ?q = "\<lparr>url = ''https://app.codecrafters.io/concepts/dns''\<rparr>"
  have u: "regex_match ''/users/'' (url ?q) = None"
    by (simp add: match_here_def seg_char_def)
  have c: "regex_match ''/concepts/'' (url ?q) = Some ''dns''"
    by (simp add: match_here_def seg_char_def)
  have f: "fetch_json null_world (concept_data_url ''dns'') = Inr JNull"
    by (simp add: null_world_def)
  have t: "concept_try null_world ''dns'' =
      ((JStr (fallback_title ''dns''), JStr (fallback_description ''dns'')),
       [ConsoleError [LErr NullPropertyRead], ConsoleLog [LStr ''ignoring error for now'']])"
    by (simp add: concept_try_def f catch_block_def)
  have m: "page_metadata null_world ?q =
       \<lparr>pageImageUrl = JStr ''https://og.codecrafters.io/api/concept/dns'',
        pageTitle = JStr (fallback_title ''dns''),
        pageDescription = JStr (fallback_description ''dns'')\<rparr>"
    using u c by (simp add: page_metadata_def t)
  have e: "fallback_title ''dns'' = ''Dns''"
    by code_simp
  have i: "index_file_text null_world = Inr ''<html><head></head></html>''"
    by (simp add: null_world_def)
  have l: "snd (middleware (\<lambda>text a v c. text) null_world ?q)
       = [ConsoleError [LErr NullPropertyRead], ConsoleLog [LStr ''ignoring error for now'']]"
    using u c by (simp add: middleware_def t i)
  show ?thesis by (intro conjI u c f m e l)
qed

section \<open>Properties of the substitution\<close>

subsection \<open>Quoting\<close>

lemma attr_quote_no_quote: "CHR 0x22 \<notin> set (attr_quote s)"
  by (induction s) auto

lemma attr_unquote_quote: "attr_unquote (attr_quote s) = s"
  by (induction s) auto

subsection \<open>Reading and printing a tag\<close>

lemma print_pieces_simps [simp]:
  "print_pieces [] = []"
  "print_pieces (p # ps) = print_piece p @ print_pieces ps"
  by (simp_all add: print_pieces_def)

lemma lex_tag_sound:
  "lex_tag s = Some (ps, rest) \<Longrightarrow> s = print_pieces ps @ CHR ''>'' # rest \<and> list_all wf_piece ps"
proof (induction s arbitrary: ps rest rule: lex_tag.induct)
  case 1
  then show ?case by simp
next
  case (2 c cs)
  show ?case
  proof (cases "c = CHR ''>''")
    case True
    with "2.prems" show ?thesis by simp
  next
    case gt: False
    show ?thesis
    proof (cases "c = CHR 0x22")
      case True
      define q where "q = takeWhile (\<lambda>x. x \<noteq> CHR 0x22) cs"
      from True gt "2.prems" obtain x r ps' where
        d: "dropWhile (\<lambda>x. x \<noteq> CHR 0x22) cs = x # r" and l: "lex_tag r = Some (ps', rest)"
        and p: "ps = Quoted q # ps'"
        unfolding q_def by (auto split: list.splits option.splits)
      from "2.IH"(1) [OF gt True d l]
      have r: "r = print_pieces ps' @ CHR ''>'' # rest" and w: "list_all wf_piece ps'" by simp_all
      have "\<not> (hd (dropWhile (\<lambda>x. x \<noteq> CHR 0x22) cs) \<noteq> CHR 0x22)"
        using hd_dropWhile [of "\<lambda>x. x \<noteq> CHR 0x22" cs] d by simp
      with d have x: "x = CHR 0x22" by simp
      have "cs = takeWhile (\<lambda>x. x \<noteq> CHR 0x22) cs @ dropWhile (\<lambda>x. x \<noteq> CHR 0x22) cs"
        by simp
      then have cs: "cs = q @ CHR 0x22 # r" unfolding q_def d x .
      have nq: "CHR 0x22 \<notin> set q"
        unfolding q_def by (auto dest: set_takeWhileD)
      have "c # cs = print_pieces ps @ CHR ''>'' # rest"
        unfolding p using True r cs by simp
      with p nq w show ?thesis by simp
    next
      case False
      with gt "2.prems" obtain ps' where l: "lex_tag cs = Some (ps', rest)" and p: "ps = Ch c # ps'"
        by (auto split: option.splits)
      from "2.IH"(2) [OF gt False l] p gt False show ?thesis by simp
    qed
  qed
qed

lemma lex_tag_complete:
  "list_all wf_piece ps \<Longrightarrow> lex_tag (print_pieces ps @ CHR ''>'' # rest) = Some (ps, rest)"
proof (induction ps)
  case Nil
  show ?case by simp
next
  case (Cons p ps)
  then have ih: "lex_tag (print_pieces ps @ CHR ''>'' # rest) = Some (ps, rest)" by simp
  show ?case
  proof (cases p)
    case (Ch c)
    with Cons.prems ih show ?thesis by simp
  next
    case (Quoted q)
    with Cons.prems have nq: "CHR 0x22 \<notin> set q" by simp
    let ?r = "print_pieces ps @ CHR ''>'' # rest"
    have nq': "\<forall>x\<in>set q. x \<noteq> CHR 0x22" using nq by auto
    have d: "dropWhile (\<lambda>x. x \<noteq> CHR 0x22) (q @ CHR 0x22 # ?r) = CHR 0x22 # ?r"
      using nq' by (simp add: dropWhile_append3)
    have t: "takeWhile (\<lambda>x. x \<noteq> CHR 0x22) (q @ CHR 0x22 # ?r) = q"
      using nq' by simp
    have "lex_tag (CHR 0x22 # (q @ CHR 0x22 # ?r)) = Some (Quoted q # ps, rest)"
      by (simp add: d t ih)
    with Quoted show ?thesis by simp
  qed
qed

subsection \<open>Reading and printing a document\<close>

lemma print_items_simps [simp]:
  "print_items [] = []"
  "print_items (i # is) = print_item i @ print_items is"
  by (simp_all add: print_items_def)

lemma meta_open_None_cong:
  "take 6 s = take 6 s' \<Longrightarrow> meta_open s = None \<Longrightarrow> meta_open s' = None"
proof -
  assume e: "take 6 s = take 6 s'" and n: "meta_open s = None"
  have "take 5 (take 6 s) = take 5 (take 6 s')" using e by simp
  then have a: "take 5 s = take 5 s'" by simp
  have "drop 5 (take 6 s) = drop 5 (take 6 s')" using e by simp
  then have b: "take 1 (drop 5 s) = take 1 (drop 5 s')" by (simp add: drop_take)
  show ?thesis
  proof (rule ccontr)
    assume "meta_open s' \<noteq> None"
    then obtain w inside where "meta_open s' = Some (w, inside)" by auto
    then have s': "s' = ''<meta'' @ w # inside" and w: "is_space w" by (simp_all add: meta_open_Some)
    from s' a have "take 5 s = ''<meta''" by simp
    moreover from s' b have "take 1 (drop 5 s) = [w]" by simp
    then obtain inside' where "drop 5 s = w # inside'" by (cases "drop 5 s") auto
    ultimately have "meta_open s = Some (w, inside')" using w by (simp add: meta_open_def)
    with n show False by simp
  qed
qed

lemma items_print: "print_items (items t) = t"
proof (induction t rule: items.induct)
  case 1
  show ?case by simp
next
  case (2 x xs)
  show ?case
  proof (cases "meta_open (x # xs)")
    case None
    with 2 show ?thesis by simp
  next
    case (Some p)
    obtain w inside where p: "p = (w, inside)" by (cases p)
    with Some have o: "meta_open (x # xs) = Some (w, inside)" by simp
    then have t: "x # xs = ''<meta'' @ w # inside" by (simp add: meta_open_Some)
    show ?thesis
    proof (cases "lex_tag inside")
      case None
      with o show ?thesis by simp
    next
      case (Some q)
      obtain ps rest where q: "q = (ps, rest)" by (cases q)
      with Some have l: "lex_tag inside = Some (ps, rest)" by simp
      from lex_tag_sound [OF l] have b: "inside = print_pieces ps @ CHR ''>'' # rest" by simp
      from "2.IH"(2) [OF o refl l refl] have "print_items (items rest) = rest" .
      with o l have "print_items (items (x # xs)) = ''<meta'' @ w # print_pieces ps @ CHR ''>'' # rest"
        by simp
      with t b show ?thesis by simp
    qed
  qed
qed

lemma items_wf: "list_all wf_item (items t)"
proof (induction t rule: items.induct)
  case 1
  show ?case by simp
next
  case (2 x xs)
  show ?case
  proof (cases "meta_open (x # xs)")
    case None
    with 2 show ?thesis by simp
  next
    case (Some p)
    obtain w inside where p: "p = (w, inside)" by (cases p)
    with Some have o: "meta_open (x # xs) = Some (w, inside)" by simp
    show ?thesis
    proof (cases "lex_tag inside")
      case None
      with o show ?thesis by simp
    next
      case (Some q)
      obtain ps rest where q: "q = (ps, rest)" by (cases q)
      with Some have l: "lex_tag inside = Some (ps, rest)" by simp
      from lex_tag_sound [OF l] have "list_all wf_piece ps" by simp
      moreover from "2.IH"(2) [OF o refl l refl] have "list_all wf_item (items rest)" .
      ultimately show ?thesis using o l by simp
    qed
  qed
qed

text \<open>
  Rewriting the tags of a text does not touch its first six characters, so it does not
  change where a tag starts.
\<close>

lemma take_retagged:
  "n \<le> 6 \<Longrightarrow> take n (print_items (map (map_meta g) (items t))) = take n t"
proof (induction t arbitrary: n rule: items.induct)
  case 1
  show ?case by simp
next
  case (2 x xs)
  show ?case
  proof (cases "meta_open (x # xs)")
    case None
    show ?thesis
    proof (cases n)
      case 0
      then show ?thesis by simp
    next
      case (Suc m)
      with "2.prems" have "m \<le> 6" by simp
      from "2.IH"(1) [OF None this] Suc None show ?thesis by simp
    qed
  next
    case (Some p)
    obtain w inside where p: "p = (w, inside)" by (cases p)
    with Some have o: "meta_open (x # xs) = Some (w, inside)" by simp
    then have t: "x # xs = ''<meta'' @ w # inside" by (simp add: meta_open_Some)
    show ?thesis
    proof (cases "lex_tag inside")
      case None
      with o show ?thesis by simp
    next
      case (Some q)
      obtain ps rest where q: "q = (ps, rest)" by (cases q)
      with Some have l: "lex_tag inside = Some (ps, rest)" by simp
      have "print_items (map (map_meta g) (items (x # xs)))
          = (''<meta'' @ [w]) @ print_pieces (g ps) @ CHR ''>'' # print_items (map (map_meta g) (items rest))"
        using o l by simp
      moreover have "x # xs = (''<meta'' @ [w]) @ inside" using t by simp
      ultimately show ?thesis using "2.prems" by (simp only: take_append) simp
    qed
  qed
qed

text \<open>
  The items of a text whose tags have been rewritten are the rewritten items: the lexer
  finds the same tags at the same places.
\<close>

lemma items_retagged:
  assumes g: "keeps_wf g"
  shows "items (print_items (map (map_meta g) (items t))) = map (map_meta g) (items t)"
proof (induction t rule: items.induct)
  case 1
  show ?case by simp
next
  case (2 x xs)
  let ?T = "\<lambda>s. print_items (map (map_meta g) (items s))"
  show ?case
  proof (cases "meta_open (x # xs)")
    case None
    have "take 6 (x # xs) = take 6 (x # ?T xs)"
      using take_retagged [of 5 g xs] by simp
    from meta_open_None_cong [OF this None] have n: "meta_open (x # ?T xs) = None" .
    have "?T (x # xs) = x # ?T xs" using None by simp
    then have "items (?T (x # xs)) = Text x # items (?T xs)" using n by simp
    also have "\<dots> = Text x # map (map_meta g) (items xs)"
      using "2.IH"(1) [OF None] by simp
    finally show ?thesis using None by simp
  next
    case (Some p)
    obtain w inside where p: "p = (w, inside)" by (cases p)
    with Some have o: "meta_open (x # xs) = Some (w, inside)" by simp
    then have w: "is_space w" by (simp add: meta_open_Some)
    show ?thesis
    proof (cases "lex_tag inside")
      case None
      with o show ?thesis by simp
    next
      case (Some q)
      obtain ps rest where q: "q = (ps, rest)" by (cases q)
      with Some have l: "lex_tag inside = Some (ps, rest)" by simp
      from lex_tag_sound [OF l] g have wf: "list_all wf_piece (g ps)"
        by (simp add: keeps_wf_def)
      let ?inside = "print_pieces (g ps) @ CHR ''>'' # ?T rest"
      have e: "?T (x # xs) = CHR ''<'' # ''meta'' @ w # ?inside" using o l by simp
      have o': "meta_open (CHR ''<'' # ''meta'' @ w # ?inside) = Some (w, ?inside)"
        using w by (simp add: meta_open_Some)
      have l': "lex_tag ?inside = Some (g ps, ?T rest)"
        by (rule lex_tag_complete [OF wf])
      have "items (CHR ''<'' # ''meta'' @ w # ?inside) = Meta w (g ps) # items (?T rest)"
        using o' l' by (simp only: items.simps option.case prod.case)
      also have "\<dots> = Meta w (g ps) # map (map_meta g) (items rest)"
        using "2.IH"(2) [OF o refl l refl] by simp
      finally show ?thesis using e o l by simp
    qed
  qed
qed

subsection \<open>One substitution on one tag\<close>

lemma set_content_wf:
  "CHR 0x22 \<notin> set new \<Longrightarrow> list_all wf_piece ps \<Longrightarrow> list_all wf_piece (set_content new nm eq ps)"
  by (induction new nm eq ps rule: set_content.induct) simp_all

lemma set_content_twice:
  "set_content new' nm eq (set_content new nm eq ps) = set_content new' nm eq ps"
  by (induction new nm eq ps rule: set_content.induct) simp_all

lemma attributes_set_content:
  "attributes nm eq (set_content new nm eq ps) = set_first (attr_unquote new) (attributes nm eq ps)"
  by (induction new nm eq ps rule: set_content.induct) simp_all

lemma retag_wf: "keeps_wf (retag a v c)"
  by (simp add: keeps_wf_def retag_def set_content_wf attr_quote_no_quote)

lemma retag_idem: "retag a v c (retag a v c ps) = retag a v c ps"
  by (simp add: retag_def set_content_twice)

lemma map_meta_idem: "map_meta (retag a v c) (map_meta (retag a v c) i) = map_meta (retag a v c) i"
  by (cases i) (simp_all add: retag_idem)

subsection \<open>Idempotence\<close>

text \<open>
  Claim C9. For every text and every triple of attribute name, attribute value and
  replacement content, substituting twice gives the same text as substituting once.
\<close>

theorem replaceMetaTag_idempotent:
  "replaceMetaTag (replaceMetaTag text a v c) a v c = replaceMetaTag text a v c"
proof -
  have "items (replaceMetaTag text a v c) = map (map_meta (retag a v c)) (items text)"
    unfolding replaceMetaTag_def by (rule items_retagged [OF retag_wf])
  then have "replaceMetaTag (replaceMetaTag text a v c) a v c
      = print_items (map (map_meta (retag a v c)) (map (map_meta (retag a v c)) (items text)))"
    by (simp add: replaceMetaTag_def)
  also have "\<dots> = print_items (map (map_meta (retag a v c)) (items text))"
    by (simp add: map_meta_idem comp_def)
  finally show ?thesis by (simp add: replaceMetaTag_def)
qed

text \<open>
  An example of one substitution: the matching tag has its \<^verbatim>\<open>content\<close> before its
  \<^verbatim>\<open>name\<close>, the new content has quotes and an ampersand, the other tag is left alone.
\<close>

lemma replaceMetaTag_example:
  \<open>replaceMetaTag ''<p><meta content="old" name="d"/><meta name="e" content="x">'' ''name'' ''d''
      ''say "hi" & go''
    = ''<p><meta content="say &quot;hi&quot; &amp; go" name="d"/><meta name="e" content="x">''\<close>
  by code_simp

subsection \<open>Several substitutions\<close>

lemma retag_all_simps [simp]:
  "retag_all [] ps = ps"
  "retag_all ((a, v, c) # ks) ps = retag_all ks (retag a v c ps)"
  "retag_all (ks @ [(a, v, c)]) ps = retag a v c (retag_all ks ps)"
  by (simp_all add: retag_all_def)

lemma map_meta_id: "map_meta (\<lambda>ps. ps) i = i"
  by (cases i) simp_all

lemma map_meta_comp: "map_meta g (map_meta h i) = map_meta (\<lambda>ps. g (h ps)) i"
  by (cases i) simp_all

lemma replace_all_fused:
  "foldl (\<lambda>text (a, v, c). replaceMetaTag text a v c) t ks
     = print_items (map (map_meta (retag_all ks)) (items t))"
proof (induction ks arbitrary: t)
  case Nil
  have "map_meta (retag_all []) i = i" for i by (cases i) simp_all
  then have "map (map_meta (retag_all [])) (items t) = items t"
    by (simp add: map_idI)
  then show ?case by (simp only: foldl_Nil items_print)
next
  case (Cons k ks)
  obtain a v c where k: "k = (a, v, c)" by (cases k)
  have i: "items (replaceMetaTag t a v c) = map (map_meta (retag a v c)) (items t)"
    unfolding replaceMetaTag_def by (rule items_retagged [OF retag_wf])
  have "foldl (\<lambda>text (a, v, c). replaceMetaTag text a v c) t (k # ks)
      = foldl (\<lambda>text (a, v, c). replaceMetaTag text a v c) (replaceMetaTag t a v c) ks"
    by (simp add: k)
  also have "\<dots> = print_items (map (map_meta (retag_all ks)) (items (replaceMetaTag t a v c)))"
    by (rule Cons.IH)
  also have "\<dots> = print_items (map (map_meta (\<lambda>ps. retag_all ks (retag a v c ps))) (items t))"
    by (simp add: i map_meta_comp comp_def)
  also have "(\<lambda>ps. retag_all ks (retag a v c ps)) = retag_all (k # ks)"
    by (rule ext) (simp add: k)
  finally show ?case .
qed

lemma retag_all_wf: "keeps_wf (retag_all ks)"
proof (induction ks rule: rev_induct)
  case Nil
  show ?case by (simp add: keeps_wf_def)
next
  case (snoc k ks)
  obtain a v c where k: "k = (a, v, c)" by (cases k)
  from snoc retag_wf [of a v c] show ?case by (simp add: keeps_wf_def k)
qed

lemma metas_map: "metas (map (map_meta g) is) = map g (metas is)"
  by (induction "is" rule: metas.induct) simp_all

lemma meta_tags_replace_all:
  "meta_tags (foldl (\<lambda>text (a, v, c). replaceMetaTag text a v c) t ks)
     = map (retag_all ks) (meta_tags t)"
  by (simp add: replace_all_fused meta_tags_def items_retagged [OF retag_all_wf] metas_map)

lemma items_replace_all:
  "items (foldl (\<lambda>text (a, v, c). replaceMetaTag text a v c) t ks)
     = map (map_meta (retag_all ks)) (items t)"
  by (simp add: replace_all_fused items_retagged [OF retag_all_wf])


lemma set_first_other: "a \<noteq> ''content'' \<Longrightarrow> (a, v) \<in> set (set_first val as) \<longleftrightarrow> (a, v) \<in> set as"
  by (induction val as rule: set_first.induct) auto

lemma map_of_set_first:
  "map_of (set_first val as) ''content'' = (if map_of as ''content'' = None then None else Some val)"
  by (induction val as rule: set_first.induct) auto

lemma tag_attributes_set_content:
  "tag_attributes (set_content new [] False ps) = set_first (attr_unquote new) (tag_attributes ps)"
  by (simp add: tag_attributes_def attributes_set_content)

lemma carries_retag:
  "a \<noteq> ''content'' \<Longrightarrow>
     (a, v) \<in> set (tag_attributes (retag a' v' c' ps)) \<longleftrightarrow> (a, v) \<in> set (tag_attributes ps)"
  by (simp add: retag_def tag_attributes_set_content set_first_other)

lemma content_of_retag:
  "content_of (retag a v c ps) =
     (if (a, v) \<in> set (tag_attributes ps) \<and> content_of ps \<noteq> None then Some c else content_of ps)"
  by (simp add: retag_def content_of_def tag_attributes_set_content map_of_set_first attr_unquote_quote)

lemma carries_retag_all:
  "a \<noteq> ''content'' \<Longrightarrow>
     (a, v) \<in> set (tag_attributes (retag_all ks ps)) \<longleftrightarrow> (a, v) \<in> set (tag_attributes ps)"
proof (induction ks rule: rev_induct)
  case Nil
  show ?case by simp
next
  case (snoc k ks)
  obtain a' v' c' where k: "k = (a', v', c')" by (cases k)
  from snoc show ?case by (simp add: k carries_retag)
qed

lemma has_content_retag_all:
  "content_of (retag_all ks ps) = None \<longleftrightarrow> content_of ps = None"
proof (induction ks rule: rev_induct)
  case Nil
  show ?case by simp
next
  case (snoc k ks)
  obtain a' v' c' where k: "k = (a', v', c')" by (cases k)
  from snoc show ?case by (simp add: k content_of_retag)
qed

text \<open>
  The content of a tag after all substitutions, when the substitutions that apply to the
  tag agree on the content.
\<close>

lemma content_of_retag_all:
  assumes names: "\<forall>(a, v, c)\<in>set ks. a \<noteq> ''content''"
    and agree: "\<forall>(a', v', c')\<in>set ks. (a', v') \<in> set (tag_attributes ps) \<longrightarrow> c' = c"
    and k: "(a, v, c) \<in> set ks" and carries: "(a, v) \<in> set (tag_attributes ps)"
  shows "content_of (retag_all ks ps) = (if content_of ps = None then None else Some c)"
  using names agree k
proof (induction ks rule: rev_induct)
  case Nil
  then show ?case by simp
next
  case (snoc k' ks)
  obtain a' v' c' where k': "k' = (a', v', c')" by (cases k')
  from snoc.prems(1) k' have a': "a' \<noteq> ''content''" by simp
  have car: "(a', v') \<in> set (tag_attributes (retag_all ks ps)) \<longleftrightarrow> (a', v') \<in> set (tag_attributes ps)"
    by (rule carries_retag_all [OF a'])
  show ?case
  proof (cases "(a', v') \<in> set (tag_attributes ps)")
    case True
    with snoc.prems(2) k' have "c' = c" by auto
    with True car show ?thesis
      by (simp add: k' content_of_retag has_content_retag_all)
  next
    case False
    with snoc.prems(3) k' carries have "(a, v, c) \<in> set ks" by auto
    moreover from snoc.prems(1) have "\<forall>(a, v, c)\<in>set ks. a \<noteq> ''content''" by auto
    moreover from snoc.prems(2) have "\<forall>(a', v', c')\<in>set ks. (a', v') \<in> set (tag_attributes ps) \<longrightarrow> c' = c"
      by auto
    ultimately have "content_of (retag_all ks ps) = (if content_of ps = None then None else Some c)"
      by (rule snoc.IH [rotated 2])
    with False car show ?thesis by (simp add: k' content_of_retag)
  qed
qed



lemma targets_of: "map (\<lambda>(a, v, c). (a, v)) (substitutions m) = targets"
  by (simp add: targets_def substitutions_def)

lemma text_targets: "map (\<lambda>(a, v, c). (a, v)) (text_substitutions m) = targets"
  by (simp add: targets_def substitutions_def text_substitutions_def)

lemma text_names: "\<forall>(a, v, c)\<in>set (text_substitutions m). a \<noteq> ''content''"
  by (simp add: text_substitutions_def substitutions_def)

lemma text_keys: 
  "(a, v, c) \<in> set (text_substitutions m) \<Longrightarrow> (a, v, c') \<in> set (text_substitutions m) \<Longrightarrow> c = c'"
  by (auto simp: text_substitutions_def substitutions_def)

lemma rewrite_spec:
  assumes "\<forall>text a v s. rmt text a v (JStr s) = replaceMetaTag text a v s"
    and "m = \<lparr>pageImageUrl = JStr imageUrl, pageTitle = JStr title, pageDescription = JStr description\<rparr>"
  shows "rewrite rmt t m
    = foldl (\<lambda>text (a, v, c). replaceMetaTag text a v c) t (text_substitutions m)"
  using assms by (simp add: rewrite_def substitutions_def text_substitutions_def)



lemma retag_all_shape:
  assumes "\<forall>(a, v, c)\<in>set ks. a \<noteq> ''content''"
  shows "retag_all ks ps = ps
     \<or> (\<exists>(a, v, c)\<in>set ks. (a, v) \<in> set (tag_attributes ps)
           \<and> retag_all ks ps = set_content (attr_quote c) [] False ps)"
  using assms
proof (induction ks rule: rev_induct)
  case Nil
  show ?case by simp
next
  case (snoc k ks)
  obtain a v c where k: "k = (a, v, c)" by (cases k)
  from snoc.prems k have a: "a \<noteq> ''content''" and ks: "\<forall>(a, v, c)\<in>set ks. a \<noteq> ''content''"
    by auto
  have car: "(a, v) \<in> set (tag_attributes (retag_all ks ps)) \<longleftrightarrow> (a, v) \<in> set (tag_attributes ps)"
    by (rule carries_retag_all [OF a])
  show ?case
  proof (cases "(a, v) \<in> set (tag_attributes ps)")
    case True
    have "set_content (attr_quote c) [] False (retag_all ks ps) = set_content (attr_quote c) [] False ps"
      using snoc.IH [OF ks] by (auto simp: set_content_twice)
    with True car have "retag_all (ks @ [k]) ps = set_content (attr_quote c) [] False ps"
      by (simp add: k retag_def)
    with True k show ?thesis by auto
  next
    case False
    with car have "retag_all (ks @ [k]) ps = retag_all ks ps" by (simp add: k retag_def)
    with snoc.IH [OF ks] show ?thesis by auto
  qed
qed


text \<open>What all the substitutions of the middleware do to one tag of the template.\<close>

lemma text_agree:
  assumes d: "\<forall>k\<in>set targets. \<forall>k'\<in>set targets.
        k \<in> set (tag_attributes ps) \<and> k' \<in> set (tag_attributes ps) \<longrightarrow> k = k'"
    and k: "(a, v, c) \<in> set (text_substitutions m)" and car: "(a, v) \<in> set (tag_attributes ps)"
  shows "\<forall>(a', v', c')\<in>set (text_substitutions m). (a', v') \<in> set (tag_attributes ps) \<longrightarrow> c' = c"
proof (intro ballI, clarify)
  fix a' v' c'
  assume k': "(a', v', c') \<in> set (text_substitutions m)" and car': "(a', v') \<in> set (tag_attributes ps)"
  from k have "(a, v) \<in> set (map (\<lambda>(a, v, c). (a, v)) (text_substitutions m))" by force
  then have t: "(a, v) \<in> set targets" by (simp only: text_targets)
  from k' have "(a', v') \<in> set (map (\<lambda>(a, v, c). (a, v)) (text_substitutions m))" by force
  then have t': "(a', v') \<in> set targets" by (simp only: text_targets)
  from d t t' car car' have "(a, v) = (a', v')" by blast
  with k k' show "c' = c" using text_keys by blast
qed

lemma tag_after_substitutions:
  assumes d: "\<forall>k\<in>set targets. \<forall>k'\<in>set targets.
        k \<in> set (tag_attributes ps) \<and> k' \<in> set (tag_attributes ps) \<longrightarrow> k = k'"
    and k: "(a, v, c) \<in> set (text_substitutions m)"
    and car: "(a, v) \<in> set (tag_attributes (retag_all (text_substitutions m) ps))"
  shows "content_of (retag_all (text_substitutions m) ps)
    = (if content_of ps = None then None else Some c)"
proof -
  from k text_names [of m] have a: "a \<noteq> ''content''" by auto
  from car have car': "(a, v) \<in> set (tag_attributes ps)"
    by (simp add: carries_retag_all [OF a])
  show ?thesis
    by (rule content_of_retag_all [OF text_names text_agree [OF d k car'] k car'])
qed

lemma substitutions_strings:
  assumes "m = \<lparr>pageImageUrl = JStr imageUrl, pageTitle = JStr title, pageDescription = JStr description\<rparr>"
  shows "\<forall>(a, v, c)\<in>set (substitutions m). c = JStr (str_of c) \<and> (a, v, str_of c) \<in> set (text_substitutions m)"
  using assms by (simp add: substitutions_def text_substitutions_def)

lemma find_map_invariant:
  assumes "\<And>x. P (f x) = P x"
  shows "find P (map f xs) = map_option f (find P xs)"
  by (induction xs) (simp_all add: assms)

lemma find_retagged:
  assumes a: "a \<noteq> ''content''"
  shows "find (\<lambda>ps. (a, v) \<in> set (tag_attributes ps) \<and> content_of ps \<noteq> None) (map (retag_all ks) tags)
    = map_option (retag_all ks)
        (find (\<lambda>ps. (a, v) \<in> set (tag_attributes ps) \<and> content_of ps \<noteq> None) tags)"
proof (rule find_map_invariant)
  fix ps
  show "((a, v) \<in> set (tag_attributes (retag_all ks ps)) \<and> content_of (retag_all ks ps) \<noteq> None)
    = ((a, v) \<in> set (tag_attributes ps) \<and> content_of ps \<noteq> None)"
    by (simp only: carries_retag_all [OF a] has_content_retag_all)
qed

lemma frame_items:
  assumes "\<forall>(a, v, c)\<in>set ks. (a, v) \<in> set targets \<and> a \<noteq> ''content''"
  shows "list_all2 same_but_content is (map (map_meta (retag_all ks)) is)"
proof (induction "is")
  case Nil
  show ?case by simp
next
  case (Cons i "is")
  have "same_but_content i (map_meta (retag_all ks) i)"
  proof (cases i)
    case (Text c)
    then show ?thesis by (simp add: same_but_content_def)
  next
    case (Unclosed s)
    then show ?thesis by (simp add: same_but_content_def)
  next
    case (Meta w ps)
    from assms have n: "\<forall>(a, v, c)\<in>set ks. a \<noteq> ''content''" by auto
    from retag_all_shape [OF n, of ps] show ?thesis
    proof
      assume "retag_all ks ps = ps"
      with Meta show ?thesis by (simp add: same_but_content_def)
    next
      assume "\<exists>(a, v, c)\<in>set ks. (a, v) \<in> set (tag_attributes ps)
           \<and> retag_all ks ps = set_content (attr_quote c) [] False ps"
      then obtain a v c where k: "(a, v, c) \<in> set ks" and car: "(a, v) \<in> set (tag_attributes ps)"
        and r: "retag_all ks ps = set_content (attr_quote c) [] False ps"
        by auto
      from assms k have "(a, v) \<in> set targets" by auto
      with car have "targeted ps" by (auto simp: targeted_def)
      with Meta r show ?thesis by (auto simp: same_but_content_def)
    qed
  qed
  with Cons show ?case by simp
qed

lemma text_in_targets: "\<forall>(a, v, c)\<in>set (text_substitutions m). (a, v) \<in> set targets \<and> a \<noteq> ''content''"
  by (simp add: text_substitutions_def substitutions_def targets_def)

text \<open>The rewritten template, under the model of the substitution.\<close>

lemma rewrite_by_model:
  assumes rmt: "\<forall>text a v s. rmt text a v (JStr s) = replaceMetaTag text a v s"
    and m: "m = \<lparr>pageImageUrl = JStr imageUrl, pageTitle = JStr title, pageDescription = JStr description\<rparr>"
    and d: "disjoint_targets t"
  shows "\<forall>(a, v, c)\<in>set (substitutions m). \<forall>ps\<in>set (meta_tags (rewrite rmt t m)).
           (a, v) \<in> set (tag_attributes ps) \<longrightarrow>
             content_of ps = None \<or> map_option JStr (content_of ps) = Some c"
    and "\<forall>(a, v, c)\<in>set (substitutions m). meta_content t a v \<noteq> None \<longrightarrow>
           map_option JStr (meta_content (rewrite rmt t m) a v) = Some c"
    and "list_all2 same_but_content (items t) (items (rewrite rmt t m))"
proof -
  let ?ks = "text_substitutions m"
  have b: "rewrite rmt t m = foldl (\<lambda>text (a, v, c). replaceMetaTag text a v c) t ?ks"
    by (rule rewrite_spec [OF rmt m])
  have tags: "meta_tags (rewrite rmt t m) = map (retag_all ?ks) (meta_tags t)"
    by (simp only: b meta_tags_replace_all)
  have its: "items (rewrite rmt t m) = map (map_meta (retag_all ?ks)) (items t)"
    by (simp only: b items_replace_all)
  have one: "content_of (retag_all ?ks ps) = (if content_of ps = None then None else Some (str_of c))"
    if "ps \<in> set (meta_tags t)" and "(a, v, c) \<in> set (substitutions m)"
      and "(a, v) \<in> set (tag_attributes (retag_all ?ks ps))" for ps a v c
  proof -
    from d that(1) have dj: "\<forall>k\<in>set targets. \<forall>k'\<in>set targets.
        k \<in> set (tag_attributes ps) \<and> k' \<in> set (tag_attributes ps) \<longrightarrow> k = k'"
      by (simp add: disjoint_targets_def)
    from substitutions_strings [OF m] that(2) have k: "(a, v, str_of c) \<in> set ?ks" by auto
    show ?thesis by (rule tag_after_substitutions [OF dj k that(3)])
  qed
  have v1: "content_of ps = None \<or> map_option JStr (content_of ps) = Some c"
    if k: "(a, v, c) \<in> set (substitutions m)" and ps: "ps \<in> set (meta_tags (rewrite rmt t m))"
      and car: "(a, v) \<in> set (tag_attributes ps)" for a v c ps
  proof -
    from ps tags obtain ps0 where ps0: "ps0 \<in> set (meta_tags t)" and e: "ps = retag_all ?ks ps0"
      by auto
    from substitutions_strings [OF m] k have c: "c = JStr (str_of c)" by auto
    from one [OF ps0 k] car e
    have "content_of ps = (if content_of ps0 = None then None else Some (str_of c))" by simp
    with c show ?thesis by (cases "content_of ps0 = None") auto
  qed
  then show "\<forall>(a, v, c)\<in>set (substitutions m). \<forall>ps\<in>set (meta_tags (rewrite rmt t m)).
           (a, v) \<in> set (tag_attributes ps) \<longrightarrow>
             content_of ps = None \<or> map_option JStr (content_of ps) = Some c"
    by blast
  have v2: "map_option JStr (meta_content (rewrite rmt t m) a v) = Some c"
    if k: "(a, v, c) \<in> set (substitutions m)" and y: "meta_content t a v \<noteq> None" for a v c
  proof -
    let ?P = "\<lambda>ps. (a, v) \<in> set (tag_attributes ps) \<and> content_of ps \<noteq> None"
    from substitutions_strings [OF m] k have c: "c = JStr (str_of c)"
      and k': "(a, v, str_of c) \<in> set ?ks" by auto
    from k' text_names [of m] have a: "a \<noteq> ''content''" by auto
    from y obtain ps0 where f: "find ?P (meta_tags t) = Some ps0"
      by (auto simp: meta_content_def split: option.splits)
    then have p0: "?P ps0" and in0: "ps0 \<in> set (meta_tags t)"
      by (auto simp: find_Some_iff)
    from p0 have car: "(a, v) \<in> set (tag_attributes (retag_all ?ks ps0))"
      by (simp add: carries_retag_all [OF a])
    have "find ?P (meta_tags (rewrite rmt t m)) = Some (retag_all ?ks ps0)"
      by (simp only: tags find_retagged [OF a] f option.map)
    then have "meta_content (rewrite rmt t m) a v = content_of (retag_all ?ks ps0)"
      by (simp only: meta_content_def option.case)
    also from one [OF in0 k car] p0 have "\<dots> = Some (str_of c)" by simp
    finally show ?thesis using c by simp
  qed
  then show "\<forall>(a, v, c)\<in>set (substitutions m). meta_content t a v \<noteq> None \<longrightarrow>
           map_option JStr (meta_content (rewrite rmt t m) a v) = Some c"
    by blast
  show "list_all2 same_but_content (items t) (items (rewrite rmt t m))"
    unfolding its by (rule frame_items [OF text_in_targets])
qed

section \<open>The claims about the rewritten template\<close>






text \<open>
  Claim C2. On a concept route where the fetch succeeds with an object whose \<^verbatim>\<open>title\<close>
  and \<^verbatim>\<open>description_markdown\<close> are strings, with the imported function as the model of
  the substitution says, a readable template and disjoint targets, the middleware
  responds with status 200, and in the body every meta tag with \<^verbatim>\<open>property="og:title"\<close>
  that has a content has the returned title as its content, every meta tag with
  \<^verbatim>\<open>property="og:description"\<close> the returned description; where the template has such a
  tag, its content in the body is the returned value. The slug-derived fallback values
  do not occur in these statements: the returned values have replaced them.
\<close>

theorem fetched_metadata_in_output:
  assumes "\<forall>text a v s. rmt text a v (JStr s) = replaceMetaTag text a v s"
    and "regex_match ''/users/'' (url request) = None"
    and "regex_match ''/concepts/'' (url request) = Some conceptSlug"
    and "fetch_json w (concept_data_url conceptSlug) = Inr (JObj kvs)"
    and "map_of kvs ''title'' = Some (JStr title)"
    and "map_of kvs ''description_markdown'' = Some (JStr description)"
    and "index_file_text w = Inr t"
    and "disjoint_targets t"
  shows "\<exists>b. middleware rmt w request =
            (Respond \<lparr>status = 200, headers = [(''Content-Type'', ''text/html'')], body = b\<rparr>, [])
      \<and> (\<forall>ps\<in>set (meta_tags b). (''property'', ''og:title'') \<in> set (tag_attributes ps) \<longrightarrow>
            content_of ps = None \<or> content_of ps = Some title)
      \<and> (\<forall>ps\<in>set (meta_tags b). (''property'', ''og:description'') \<in> set (tag_attributes ps) \<longrightarrow>
            content_of ps = None \<or> content_of ps = Some description)
      \<and> (meta_content t ''property'' ''og:title'' \<noteq> None \<longrightarrow>
            meta_content b ''property'' ''og:title'' = Some title)
      \<and> (meta_content t ''property'' ''og:description'' \<noteq> None \<longrightarrow>
            meta_content b ''property'' ''og:description'' = Some description)"
proof -
  let ?m = "\<lparr>pageImageUrl = JStr (''https://og.codecrafters.io/api/concept/'' @ conceptSlug),
       pageTitle = JStr title, pageDescription = JStr description\<rparr>"
  let ?b = "rewrite rmt t ?m"
  have mw: "middleware rmt w request =
      (Respond \<lparr>status = 200, headers = [(''Content-Type'', ''text/html'')], body = ?b\<rparr>, [])"
    using assms(2-7) by (simp add: middleware_def concept_try_def new_Response_def)
  note r = rewrite_by_model [OF assms(1) refl assms(8), of "''https://og.codecrafters.io/api/concept/'' @ conceptSlug" title description]
  have kt: "(''property'', ''og:title'', JStr title) \<in> set (substitutions ?m)"
    and kd: "(''property'', ''og:description'', JStr description) \<in> set (substitutions ?m)"
    by (simp_all add: substitutions_def)
  have j: "map_option JStr x = Some (JStr s) \<longleftrightarrow> x = Some s" for x s
    by (cases x) auto
  from r(1) kt have t1: "\<forall>ps\<in>set (meta_tags ?b). (''property'', ''og:title'') \<in> set (tag_attributes ps) \<longrightarrow>
            content_of ps = None \<or> content_of ps = Some title"
    by (fastforce simp: j)
  from r(1) kd have d1: "\<forall>ps\<in>set (meta_tags ?b). (''property'', ''og:description'') \<in> set (tag_attributes ps) \<longrightarrow>
            content_of ps = None \<or> content_of ps = Some description"
    by (fastforce simp: j)
  from r(2) kt have t2: "meta_content t ''property'' ''og:title'' \<noteq> None \<longrightarrow>
            meta_content ?b ''property'' ''og:title'' = Some title"
    by (fastforce simp: j)
  from r(2) kd have d2: "meta_content t ''property'' ''og:description'' \<noteq> None \<longrightarrow>
            meta_content ?b ''property'' ''og:description'' = Some description"
    by (fastforce simp: j)
  from mw t1 d1 t2 d2 show ?thesis by blast
qed

theorem fetched_metadata_in_output_witness:
  "\<exists>b. middleware model_rmt shell_world \<lparr>url = ''https://app.codecrafters.io/concepts/network-protocols''\<rparr>
         = (Respond \<lparr>status = 200, headers = [(''Content-Type'', ''text/html'')], body = b\<rparr>, [])
     \<and> meta_content b ''property'' ''og:title'' = Some ''Custom Title''
     \<and> meta_content b ''property'' ''og:description'' = Some ''Custom desc''"
proof -
  let ?q = "\<lparr>url = ''https://app.codecrafters.io/concepts/network-protocols''\<rparr>"
  have a: "\<forall>text a v s. model_rmt text a v (JStr s) = replaceMetaTag text a v s"
    by (simp add: model_rmt_def)
  have u: "regex_match ''/users/'' (url ?q) = None"
    by (simp add: match_here_def seg_char_def)
  have c: "regex_match ''/concepts/'' (url ?q) = Some ''network-protocols''"
    by (simp add: match_here_def seg_char_def)
  have f: "fetch_json shell_world (concept_data_url ''network-protocols'')
      = Inr (JObj [(''title'', JStr ''Custom Title''), (''description_markdown'', JStr ''Custom desc'')])"
    by (simp add: shell_world_def)
  have kt: "map_of [(''title'', JStr ''Custom Title''), (''description_markdown'', JStr ''Custom desc'')]
      ''title'' = Some (JStr ''Custom Title'')"
    by simp
  have kd: "map_of [(''title'', JStr ''Custom Title''), (''description_markdown'', JStr ''Custom desc'')]
      ''description_markdown'' = Some (JStr ''Custom desc'')"
    by simp
  have i: "index_file_text shell_world = Inr shell"
    by (simp add: shell_world_def)
  have d: "disjoint_targets shell" by code_simp
  have c1: "meta_content shell ''property'' ''og:title'' \<noteq> None" by code_simp
  have c2: "meta_content shell ''property'' ''og:description'' \<noteq> None" by code_simp
  from fetched_metadata_in_output [OF a u c f kt kd i d] obtain b where
    x: "middleware model_rmt shell_world ?q
          = (Respond \<lparr>status = 200, headers = [(''Content-Type'', ''text/html'')], body = b\<rparr>, [])
      \<and> (\<forall>ps\<in>set (meta_tags b). (''property'', ''og:title'') \<in> set (tag_attributes ps) \<longrightarrow>
            content_of ps = None \<or> content_of ps = Some ''Custom Title'')
      \<and> (\<forall>ps\<in>set (meta_tags b). (''property'', ''og:description'') \<in> set (tag_attributes ps) \<longrightarrow>
            content_of ps = None \<or> content_of ps = Some ''Custom desc'')
      \<and> (meta_content shell ''property'' ''og:title'' \<noteq> None \<longrightarrow>
            meta_content b ''property'' ''og:title'' = Some ''Custom Title'')
      \<and> (meta_content shell ''property'' ''og:description'' \<noteq> None \<longrightarrow>
            meta_content b ''property'' ''og:description'' = Some ''Custom desc'')" ..
  note mw = x [THEN conjunct1]
  note t2 = x [THEN conjunct2, THEN conjunct2, THEN conjunct2, THEN conjunct1]
  note d2 = x [THEN conjunct2, THEN conjunct2, THEN conjunct2, THEN conjunct2]
  show ?thesis
    by (rule exI [of _ b]) (intro conjI mw mp [OF t2 c1] mp [OF d2 c2])
qed

end
